theory Spec2Isabelle
  imports Main "HOL-Library.Sublist" "HOL-Library.Multiset"
begin

section \<open>Strings and numbers as JavaScript prints them\<close>

text \<open>
  Strings are lists of characters. Page numbers, counters and delays are natural numbers:
  the source only counts upwards from 0 or 1 and doubles a delay twice.
\<close>

definition nl :: string where
  \<open>nl = [CHR 0x0A]\<close>

text \<open>\<^verbatim>\<open>String(n)\<close> for a non-negative integer: its decimal digits.\<close>

function toString :: \<open>nat \<Rightarrow> string\<close> where
  \<open>toString n =
     (if n < 10 then [''0123456789'' ! n]
      else toString (n div 10) @ [''0123456789'' ! (n mod 10)])\<close>
  by pat_completeness auto
termination
  by (relation \<open>measure id\<close>) auto

declare toString.simps [simp del]

text \<open>\<^verbatim>\<open>Array.prototype.join\<close> on an array of strings.\<close>

fun join :: \<open>string \<Rightarrow> string list \<Rightarrow> string\<close> where
  \<open>join sep [] = []\<close>
| \<open>join sep [x] = x\<close>
| \<open>join sep (x # y # ys) = x @ sep @ join sep (y # ys)\<close>

text \<open>\<^verbatim>\<open>s.includes(sub)\<close>: \<open>sub\<close> occurs in \<open>s\<close> as a contiguous run.\<close>

fun str_includes :: \<open>string \<Rightarrow> string \<Rightarrow> bool\<close> where
  \<open>str_includes [] sub = (sub = [])\<close>
| \<open>str_includes (c # cs) sub = (take (length sub) (c # cs) = sub \<or> str_includes cs sub)\<close>

text \<open>
  \<^verbatim>\<open>s.trim()\<close> removes white space and line terminators at both ends. A character
  here is a code unit below 256; among these, the language counts as white space or line
  terminator the tab, line feed, vertical tab, form feed, carriage return, space and
  no-break space (U+00A0). The other ones (U+1680, U+2000 to U+200A, U+2028, U+2029,
  U+202F, U+205F, U+3000, U+FEFF) lie above 255 and are not characters of this model.
\<close>

definition isSpace :: \<open>char \<Rightarrow> bool\<close> where
  \<open>isSpace c =
     (c \<in> set [CHR 0x09, CHR 0x0A, CHR 0x0B, CHR 0x0C, CHR 0x0D, CHR 0x20, CHR 0xA0])\<close>

definition trim :: \<open>string \<Rightarrow> string\<close> where
  \<open>trim s = rev (dropWhile isSpace (rev (dropWhile isSpace s)))\<close>

section \<open>Data model\<close>

datatype language = english | tamil

datatype importance = high | medium | low

record StudyPoint =
  title :: string
  description :: string
  importance :: importance
  relevance :: string

text \<open>
  What \<^verbatim>\<open>analyzeIndividualPage\<close> returns. \<^verbatim>\<open>PageAnalysis\<close> is this object spread
  (\<^verbatim>\<open>{ ...analysis, isAnalyzed: true }\<close>) with the completion flag added. The empty
  analysis of a blank page has no \<^verbatim>\<open>tnpscCategories\<close> field, hence the option.
\<close>

record IndividualPage =
  pageNumber :: nat
  keyPoints :: \<open>string list\<close>
  studyPoints :: \<open>StudyPoint list\<close>
  summary :: string
  tnpscRelevance :: string
  tnpscCategories :: \<open>string list option\<close>

record PageAnalysis = IndividualPage +
  isAnalyzed :: bool

text \<open>
  \<^verbatim>\<open>AnalysisResult\<close>: the object a consolidation sends to the study history service and
  the question generator reads. Its fields are prefixed here, since a page analysis has
  fields of the same names. \<^verbatim>\<open>mainTopic\<close> is set by the consolidation only.
\<close>

record AnalysisResult =
  ar_keyPoints :: \<open>string list\<close>
  ar_summary :: string
  ar_tnpscRelevance :: string
  ar_studyPoints :: \<open>StudyPoint list\<close>
  ar_tnpscCategories :: \<open>string list\<close>
  ar_mainTopic :: \<open>string option\<close>

text \<open>
  The metadata of \<^verbatim>\<open>saveStudyHistory\<close>. The \<^verbatim>\<open>File\<close> object is represented by its
  name and size, the two properties the component reads.
\<close>

record File =
  file_name :: string
  file_size :: nat

record SaveMetadata =
  fileName :: string
  difficulty :: string
  metaLanguage :: language
  pageAnalysesMap :: \<open>(string \<times> PageAnalysis) list\<close>
  files :: \<open>File list\<close>

datatype error = Error (message: string) | TypeError (message: string)

section \<open>The outside world: calls, timers, notifications\<close>

text \<open>
  Every external effect is appended to a trace, in the order the code issues it.
  A \<^verbatim>\<open>setTimeout\<close> carries the place that set it. Each toast constructor is one
  \<^verbatim>\<open>toast\<close> call of the source with the values its message template interpolates.
  Console output is not modelled.
\<close>

datatype timer = TransportBackoff | RateLimitBackoff | PoliteDelay

datatype toast =
    SkippingPage nat
  | PageAnalyzed nat
  | RateLimitRetry nat nat
  | PageFailed nat nat
  | AnalysisStopped nat
  | AllPagesAnalyzed
  | SaveProgressFailed

datatype event =
    GenerateContent string
  | SetTimeout timer nat
  | AnalyzeIndividualPage nat
  | SaveStudyHistory string string \<open>AnalysisResult list\<close> SaveMetadata
  | UpdateStudyHistory string AnalysisResult \<open>(string \<times> PageAnalysis) list\<close>
  | Toast toast

record world =
  modelCalls :: nat
  storeCalls :: nat
  trace :: \<open>event list\<close>

definition emit :: \<open>event \<Rightarrow> 'w world_scheme \<Rightarrow> 'w world_scheme\<close> where
  \<open>emit e st = st\<lparr>trace := trace st @ [e]\<rparr>\<close>

definition setTimeout :: \<open>timer \<Rightarrow> nat \<Rightarrow> 'w world_scheme \<Rightarrow> 'w world_scheme\<close> where
  \<open>setTimeout site ms st = emit (SetTimeout site ms) st\<close>

section \<open>The Gemini service\<close>

text \<open>
  Lines 58 to 60 of the service (\<^verbatim>\<open>model.generateContent\<close>, \<^verbatim>\<open>response.text()\<close>,
  \<^verbatim>\<open>JSON.parse\<close>) are one step here: the \<open>k\<close>-th request to the model, with prompt
  \<open>p\<close>, either throws or yields the parsed value \<open>gen k p\<close>. The request is represented
  by its prompt text.
\<close>

definition model_generateContent ::
  \<open>(nat \<Rightarrow> string \<Rightarrow> error + 'a) \<Rightarrow> string \<Rightarrow> 'w world_scheme \<Rightarrow> (error + 'a) \<times> 'w world_scheme\<close> where
  \<open>model_generateContent gen request st =
     (gen (modelCalls st) request,
      emit (GenerateContent request) (st\<lparr>modelCalls := Suc (modelCalls st)\<rparr>))\<close>

function generateContentWithRetry_loop ::
  \<open>(nat \<Rightarrow> string \<Rightarrow> error + 'a) \<Rightarrow> string \<Rightarrow> nat \<Rightarrow> nat \<Rightarrow> error option \<Rightarrow> 'w world_scheme
    \<Rightarrow> (error + 'a) \<times> 'w world_scheme\<close> where
  \<open>generateContentWithRetry_loop gen request retries i lastError st =
     (if i < retries then
        (case model_generateContent gen request st of
           (Inr parsed, st1) \<Rightarrow> (Inr parsed, st1)
         | (Inl e, st1) \<Rightarrow>
             generateContentWithRetry_loop gen request retries (Suc i) (Some e)
               (if i < retries - 1 then setTimeout TransportBackoff (1000 * (i + 1)) st1 else st1))
      else
        (Inl (Error (''Gemini API call failed after '' @ toString retries
                     @ '' attempts. Last error: ''
                     @ (case lastError of None \<Rightarrow> ''undefined'' | Some e \<Rightarrow> message e))),
         st))\<close>
  by pat_completeness auto
termination
  by (relation \<open>measure (\<lambda>(gen, request, retries, i, lastError, st). retries - i)\<close>) auto

declare generateContentWithRetry_loop.simps [simp del]

definition generateContentWithRetry ::
  \<open>(nat \<Rightarrow> string \<Rightarrow> error + 'a) \<Rightarrow> string \<Rightarrow> nat \<Rightarrow> 'w world_scheme
    \<Rightarrow> (error + 'a) \<times> 'w world_scheme\<close> where
  \<open>generateContentWithRetry gen request retries st =
     generateContentWithRetry_loop gen request retries 0 None st\<close>

text \<open>
  The parsed response to a page analysis request, seen through the shape the prompt asks
  for: each field may be missing, and a field that is present has the declared type.
  \<^verbatim>\<open>x || d\<close> then is \<open>d\<close> for a missing field and \<open>x\<close> otherwise (an empty array is
  truthy, and an empty string gives the empty string either way).
\<close>

record RawAnalysis =
  raw_keyPoints :: \<open>string list option\<close>
  raw_studyPoints :: \<open>StudyPoint list option\<close>
  raw_summary :: \<open>string option\<close>
  raw_tnpscRelevance :: \<open>string option\<close>
  raw_tnpscCategories :: \<open>string list option\<close>

definition orElse :: \<open>'a option \<Rightarrow> 'a \<Rightarrow> 'a\<close> where
  \<open>orElse x d = (case x of None \<Rightarrow> d | Some v \<Rightarrow> v)\<close>

definition pagePrompt :: \<open>string \<Rightarrow> nat \<Rightarrow> language \<Rightarrow> string\<close> where
  \<open>pagePrompt textContent pageNo outputLanguage =
     (let languageInstruction =
            (if outputLanguage = tamil then ''Provide all responses in Tamil.''
             else ''Provide all responses in English.'')
      in concat
        [nl,
         ''Analyze this content from page '', toString pageNo,
         '' of a PDF for TNPSC exam preparation. '', languageInstruction, nl,
         ''Content: """'', take 15000 textContent, ''"""'', nl,
         nl,
         ''Return a single, valid JSON object with this exact structure:'', nl,
         ''{'', nl,
         ''  "keyPoints": ["At least 8 short, crisp, memorizable points"],'', nl,
         ''  "studyPoints": [{"title": "string", "description": "string", "importance": "high|medium|low", "tnpscRelevance": "string"}],'', nl,
         ''  "summary": "Brief summary of the page content",'', nl,
         ''  "tnpscRelevance": "How this page's content relates to TNPSC exams",'', nl,
         ''  "tnpscCategories": ["Category1", "Category2"]'', nl,
         ''}'', nl,
         ''Focus on names, dates, places, events, definitions, and key data.''])\<close>

definition analyzeIndividualPage ::
  \<open>(nat \<Rightarrow> string \<Rightarrow> error + RawAnalysis) \<Rightarrow> string \<Rightarrow> nat \<Rightarrow> language \<Rightarrow> 'w world_scheme
    \<Rightarrow> (error + IndividualPage) \<times> 'w world_scheme\<close> where
  \<open>analyzeIndividualPage gen textContent pageNo outputLanguage st =
     (case generateContentWithRetry gen (pagePrompt textContent pageNo outputLanguage) 3
             (emit (AnalyzeIndividualPage pageNo) st) of
        (Inl e, st1) \<Rightarrow> (Inl e, st1)
      | (Inr analysis, st1) \<Rightarrow>
          (Inr \<lparr>pageNumber = pageNo,
                keyPoints = orElse (raw_keyPoints analysis) [],
                studyPoints = orElse (raw_studyPoints analysis) [],
                summary = orElse (raw_summary analysis) [],
                tnpscRelevance = orElse (raw_tnpscRelevance analysis) [],
                tnpscCategories = Some (orElse (raw_tnpscCategories analysis) [])\<rparr>,
           st1))\<close>

subsection \<open>Question generation\<close>













text \<open>A world in which nothing has happened yet.\<close>

definition world0 :: world where
  \<open>world0 = \<lparr>modelCalls = 0, storeCalls = 0, trace = []\<rparr>\<close>




section \<open>The page navigator component\<close>

subsection \<open>The progress map\<close>

text \<open>
  \<^verbatim>\<open>Map<number, PageAnalysis>\<close>: a JavaScript \<^verbatim>\<open>Map\<close> iterates in insertion order, and
  \<^verbatim>\<open>set\<close> on a key that is present replaces the value where it stands. So the map is the
  list of its entries in insertion order.
\<close>

type_synonym PageMap = \<open>(nat \<times> PageAnalysis) list\<close>

definition mapGet :: \<open>PageMap \<Rightarrow> nat \<Rightarrow> PageAnalysis option\<close> where
  \<open>mapGet m k = map_of m k\<close>

definition mapHas :: \<open>PageMap \<Rightarrow> nat \<Rightarrow> bool\<close> where
  \<open>mapHas m k = (map_of m k \<noteq> None)\<close>

fun mapSet :: \<open>PageMap \<Rightarrow> nat \<Rightarrow> PageAnalysis \<Rightarrow> PageMap\<close> where
  \<open>mapSet [] k v = [(k, v)]\<close>
| \<open>mapSet ((k', v') # m) k v = (if k' = k then (k, v) # m else (k', v') # mapSet m k v)\<close>

definition mapValues :: \<open>PageMap \<Rightarrow> PageAnalysis list\<close> where
  \<open>mapValues m = map snd m\<close>

text \<open>\<^verbatim>\<open>pageAnalyses.has(n) && pageAnalyses.get(n)?.isAnalyzed\<close>\<close>

definition analyzedIn :: \<open>PageMap \<Rightarrow> nat \<Rightarrow> bool\<close> where
  \<open>analyzedIn m n = (mapHas m n \<and> (case mapGet m n of None \<Rightarrow> False | Some a \<Rightarrow> isAnalyzed a))\<close>

subsection \<open>Props, collaborators and state\<close>

text \<open>
  The component's props and the collaborators it imports. \<open>pageText n\<close> is what
  \<^verbatim>\<open>extractPageRangeFromOcr(fullText, n, n)\<close> returns. \<open>user\<close> is the signed-in user's
  \<^verbatim>\<open>uid\<close>, if any. The study history service is not part of the sources: the \<open>k\<close>-th
  call to it either throws or returns (\<open>saveStudyHistory\<close> the new record's identifier).
\<close>

record env =
  inputFile :: File
  totalPages :: nat
  pageText :: \<open>nat \<Rightarrow> string\<close>
  outputLanguage :: language
  initialPageAnalyses :: \<open>PageMap option\<close>
  initialStudyHistoryId :: \<open>string option\<close>
  user :: \<open>string option\<close>
  gemini :: \<open>nat \<Rightarrow> string \<Rightarrow> error + RawAnalysis\<close>
  saveStudyHistory :: \<open>nat \<Rightarrow> string \<Rightarrow> string \<Rightarrow> AnalysisResult list \<Rightarrow> SaveMetadata \<Rightarrow> error + string\<close>
  updateStudyHistory ::
    \<open>nat \<Rightarrow> string \<Rightarrow> AnalysisResult \<Rightarrow> (string \<times> PageAnalysis) list \<Rightarrow> error + unit\<close>

text \<open>
  The state: React's values of \<^verbatim>\<open>pageAnalyses\<close>, \<^verbatim>\<open>studyHistoryId\<close> and
  \<^verbatim>\<open>isAnalyzing\<close>, and the browser's session storage. A value that has been set is
  what the next render will see: \<open>pageAnalyses\<close> is React's \<^verbatim>\<open>Map\<close> with the updaters
  that are queued applied.

  A function of the component that is running was created by one render and sees that
  render's constants. \<^verbatim>\<open>studyHistoryId\<close> is a string or \<^verbatim>\<open>null\<close>, so the running
  function's value of it never changes: it is passed as the argument \<open>sid\<close> below.
  \<^verbatim>\<open>pageAnalyses\<close> is a reference to a \<^verbatim>\<open>Map\<close> object, which the updater
  \<^verbatim>\<open>prev => new Map(prev.set(n, a))\<close> mutates when \<^verbatim>\<open>prev\<close> is that very object.
  React runs a queued updater when it next renders the component, and it renders while
  the running function waits for a request or a timer. \<open>closureMap\<close> is the content of
  the object the running function refers to, \<open>closureQueued\<close> the content that object
  will have once the queued updaters have run, and \<open>closureShared\<close> says whether
  React's state, with the queued updaters applied, still is that object.
\<close>

record component = world +
  pageAnalyses :: PageMap
  studyHistoryId :: \<open>string option\<close>
  isAnalyzing :: bool
  sessionStorage :: \<open>(string \<times> string) list\<close>
  closureMap :: PageMap
  closureQueued :: PageMap
  closureShared :: bool

text \<open>\<^verbatim>\<open>if (s)\<close> for a string or \<^verbatim>\<open>null\<close>: the empty string is falsy.\<close>

definition truthyStr :: \<open>string option \<Rightarrow> bool\<close> where
  \<open>truthyStr s = (case s of None \<Rightarrow> False | Some v \<Rightarrow> v \<noteq> [])\<close>

definition getItem :: \<open>(string \<times> string) list \<Rightarrow> string \<Rightarrow> string option\<close> where
  \<open>getItem storage k = map_of storage k\<close>

definition setItem :: \<open>string \<Rightarrow> string \<Rightarrow> (string \<times> string) list \<Rightarrow> (string \<times> string) list\<close> where
  \<open>setItem k v storage = (k, v) # filter (\<lambda>(k', v'). k' \<noteq> k) storage\<close>

definition sessionKey :: \<open>File \<Rightarrow> string\<close> where
  \<open>sessionKey f = ''studyHistoryId_'' @ file_name f @ ''_'' @ toString (file_size f)\<close>

text \<open>The initialiser of the \<^verbatim>\<open>studyHistoryId\<close> state.\<close>

definition initStudyHistoryId :: \<open>env \<Rightarrow> (string \<times> string) list \<Rightarrow> string option\<close> where
  \<open>initStudyHistoryId e storage =
     (if truthyStr (initialStudyHistoryId e) then initialStudyHistoryId e
      else let sessionId = getItem storage (sessionKey (inputFile e))
           in if truthyStr sessionId then sessionId else None)\<close>

text \<open>The state after the first render, in a browser session with the given storage.\<close>

definition mount :: \<open>env \<Rightarrow> (string \<times> string) list \<Rightarrow> component\<close> where
  \<open>mount e storage =
     \<lparr>modelCalls = 0, storeCalls = 0, trace = [],
      pageAnalyses = orElse (initialPageAnalyses e) [],
      studyHistoryId = initStudyHistoryId e storage,
      isAnalyzing = False,
      sessionStorage = storage,
      closureMap = orElse (initialPageAnalyses e) [],
      closureQueued = orElse (initialPageAnalyses e) [],
      closureShared = True\<rparr>\<close>

text \<open>
  A function of the latest render starts to run: the \<^verbatim>\<open>Map\<close> it refers to is the one
  React holds.
\<close>

definition render :: \<open>component \<Rightarrow> component\<close> where
  \<open>render st =
     st\<lparr>closureMap := pageAnalyses st, closureQueued := pageAnalyses st, closureShared := True\<rparr>\<close>

text \<open>
  \<^verbatim>\<open>setPageAnalyses(prev => new Map(prev.set(n, a)))\<close>: the updater is queued. When
  it runs, it sets the page on the object that React holds and hands React a copy.
\<close>

definition setPageAnalyses :: \<open>nat \<Rightarrow> PageAnalysis \<Rightarrow> component \<Rightarrow> component\<close> where
  \<open>setPageAnalyses n a st =
     (let m = mapSet (pageAnalyses st) n a
      in st\<lparr>pageAnalyses := m,
             closureQueued := (if closureShared st then m else closureQueued st),
             closureShared := False\<rparr>)\<close>

text \<open>
  React renders the component while the running function waits: the queued updaters run.
  \<open>sleep\<close> is \<^verbatim>\<open>await new Promise(resolve => setTimeout(resolve, ms))\<close>.
\<close>

definition rerender :: \<open>component \<Rightarrow> component\<close> where
  \<open>rerender st = st\<lparr>closureMap := closureQueued st\<rparr>\<close>

definition sleep :: \<open>timer \<Rightarrow> nat \<Rightarrow> component \<Rightarrow> component\<close> where
  \<open>sleep site ms st = rerender (setTimeout site ms st)\<close>

definition toast :: \<open>toast \<Rightarrow> component \<Rightarrow> component\<close> where
  \<open>toast t st = emit (Toast t) st\<close>

text \<open>The text of each notification.\<close>

fun toastMessage :: \<open>toast \<Rightarrow> string\<close> where
  \<open>toastMessage (SkippingPage n) =
     ''Skipping page '' @ toString n @ '' as it has no text content.''\<close>
| \<open>toastMessage (PageAnalyzed n) = ''Page '' @ toString n @ '' analyzed successfully!''\<close>
| \<open>toastMessage (RateLimitRetry n delay) =
     ''Rate limit reached. Retrying page '' @ toString n @ '' in '' @ toString (delay div 1000)
     @ ''s...''\<close>
| \<open>toastMessage (PageFailed n attempts) =
     ''Failed to analyze page '' @ toString n @ '' after '' @ toString attempts @ '' attempts.''\<close>
| \<open>toastMessage (AnalysisStopped n) =
     ''Analysis stopped due to a persistent error on page '' @ toString n
     @ ''. Please try again later.''\<close>
| \<open>toastMessage AllPagesAnalyzed = ''All pages analyzed successfully!''\<close>
| \<open>toastMessage SaveProgressFailed = ''Failed to save study progress''\<close>

subsection \<open>Consolidation\<close>

definition pageLabelled :: \<open>nat \<Rightarrow> string \<Rightarrow> string\<close> where
  \<open>pageLabelled n s = ''Page '' @ toString n @ '': '' @ s\<close>

text \<open>
  The part of the merged object that both consolidation functions build alike, from the
  list \<^verbatim>\<open>analyzedPagesList\<close>.
\<close>

definition categoriesLabel :: \<open>PageAnalysis list \<Rightarrow> string list\<close> where
  \<open>categoriesLabel analyzedPagesList =
     [''PDF Analysis - '' @ toString (length analyzedPagesList) @ '' pages'']\<close>

definition mainTopicLabel :: \<open>File \<Rightarrow> PageAnalysis list \<Rightarrow> string\<close> where
  \<open>mainTopicLabel f analyzedPagesList =
     file_name f @ '' - Pages ''
     @ join '', '' (map toString (sort (map pageNumber analyzedPagesList)))\<close>

text \<open>\<^verbatim>\<open>analysisResult\<close> as \<^verbatim>\<open>saveConsolidatedHistoryForPage\<close> builds it.\<close>

definition analysisResultForPage :: \<open>File \<Rightarrow> PageAnalysis list \<Rightarrow> AnalysisResult\<close> where
  \<open>analysisResultForPage f analyzedPagesList =
     \<lparr>ar_keyPoints = concat (map keyPoints analyzedPagesList),
      ar_summary =
        join (nl @ nl) (map (\<lambda>page. pageLabelled (pageNumber page) (summary page)) analyzedPagesList),
      ar_tnpscRelevance =
        join (nl @ nl)
          (map (\<lambda>page. pageLabelled (pageNumber page) (tnpscRelevance page)) analyzedPagesList),
      ar_studyPoints = concat (map studyPoints analyzedPagesList),
      ar_tnpscCategories = categoriesLabel analyzedPagesList,
      ar_mainTopic = Some (mainTopicLabel f analyzedPagesList)\<rparr>\<close>

text \<open>
  \<^verbatim>\<open>analysisResult\<close> as \<^verbatim>\<open>saveConsolidatedHistory\<close> builds it: key points and study
  point titles carry the page label as well.
\<close>

definition analysisResultAll :: \<open>File \<Rightarrow> PageAnalysis list \<Rightarrow> AnalysisResult\<close> where
  \<open>analysisResultAll f analyzedPagesList =
     \<lparr>ar_keyPoints =
        concat (map (\<lambda>page. map (\<lambda>point. pageLabelled (pageNumber page) point) (keyPoints page))
                    analyzedPagesList),
      ar_summary =
        join (nl @ nl) (map (\<lambda>page. pageLabelled (pageNumber page) (summary page)) analyzedPagesList),
      ar_tnpscRelevance =
        join (nl @ nl)
          (map (\<lambda>page. pageLabelled (pageNumber page) (tnpscRelevance page)) analyzedPagesList),
      ar_studyPoints =
        concat (map (\<lambda>page. map (\<lambda>point. point\<lparr>title := pageLabelled (pageNumber page) (title point)\<rparr>)
                                 (studyPoints page))
                    analyzedPagesList),
      ar_tnpscCategories = categoriesLabel analyzedPagesList,
      ar_mainTopic = Some (mainTopicLabel f analyzedPagesList)\<rparr>\<close>

text \<open>
  \<^verbatim>\<open>pageAnalysesMapForFirestore\<close>: an object with one property per analyzed entry of the
  map, named by the page number. An object lists such properties in ascending numeric
  order whatever the order they were written in.
\<close>

definition pageAnalysesMapForFirestore :: \<open>PageMap \<Rightarrow> (string \<times> PageAnalysis) list\<close> where
  \<open>pageAnalysesMapForFirestore m =
     map (\<lambda>(n, analysis). (toString n, analysis))
         (sort_key fst (filter (\<lambda>(n, analysis). isAnalyzed analysis) m))\<close>

definition saveMetadata :: \<open>env \<Rightarrow> PageMap \<Rightarrow> SaveMetadata\<close> where
  \<open>saveMetadata e m =
     \<lparr>fileName = file_name (inputFile e), difficulty = ''medium'',
      metaLanguage = outputLanguage e,
      pageAnalysesMap = pageAnalysesMapForFirestore m,
      files = [inputFile e]\<rparr>\<close>

text \<open>
  The two calls to the study history service, each with the wait for its answer:
  \<^verbatim>\<open>await updateStudyHistory(...)\<close> and \<^verbatim>\<open>await saveStudyHistory(...)\<close>.
\<close>

definition call_updateStudyHistory ::
  \<open>env \<Rightarrow> string \<Rightarrow> AnalysisResult \<Rightarrow> (string \<times> PageAnalysis) list \<Rightarrow> component
    \<Rightarrow> (error + unit) \<times> component\<close> where
  \<open>call_updateStudyHistory e historyId analysisResult pagesMap st =
     (updateStudyHistory e (storeCalls st) historyId analysisResult pagesMap,
      rerender (emit (UpdateStudyHistory historyId analysisResult pagesMap)
                  (st\<lparr>storeCalls := Suc (storeCalls st)\<rparr>)))\<close>

definition call_saveStudyHistory ::
  \<open>env \<Rightarrow> string \<Rightarrow> string \<Rightarrow> AnalysisResult list \<Rightarrow> SaveMetadata \<Rightarrow> component
    \<Rightarrow> (error + string) \<times> component\<close> where
  \<open>call_saveStudyHistory e uid kind results meta st =
     (saveStudyHistory e (storeCalls st) uid kind results meta,
      rerender (emit (SaveStudyHistory uid kind results meta)
                  (st\<lparr>storeCalls := Suc (storeCalls st)\<rparr>)))\<close>

text \<open>
  \<^verbatim>\<open>saveConsolidatedHistoryForPage\<close>, in a function whose render saw \<open>sid\<close> as
  \<^verbatim>\<open>studyHistoryId\<close>. Everything after the check of the user is inside \<^verbatim>\<open>try\<close>, and
  the \<^verbatim>\<open>catch\<close> shows a toast and returns.
\<close>

definition saveConsolidatedHistoryForPage ::
  \<open>env \<Rightarrow> string option \<Rightarrow> nat \<Rightarrow> PageAnalysis \<Rightarrow> component \<Rightarrow> component\<close> where
  \<open>saveConsolidatedHistoryForPage e sid currentPageNum currentPageAnalysis st =
     (case user e of
        None \<Rightarrow> st
      | Some uid \<Rightarrow>
          (let currentPageAnalyses = mapSet (closureMap st) currentPageNum currentPageAnalysis;
               analyzedPagesList = filter isAnalyzed (mapValues currentPageAnalyses)
           in if length analyzedPagesList = 0 then st
              else
                (let analysisResult = analysisResultForPage (inputFile e) analyzedPagesList;
                     pagesMap = pageAnalysesMapForFirestore currentPageAnalyses
                 in if truthyStr sid then
                      (case call_updateStudyHistory e (orElse sid []) analysisResult pagesMap st of
                         (Inr u, st1) \<Rightarrow> st1
                       | (Inl err, st1) \<Rightarrow> toast SaveProgressFailed st1)
                    else
                      (case call_saveStudyHistory e uid ''analysis'' [analysisResult]
                              (saveMetadata e currentPageAnalyses) st of
                         (Inr newId, st1) \<Rightarrow>
                           st1\<lparr>studyHistoryId := Some newId,
                               sessionStorage :=
                                 setItem (sessionKey (inputFile e)) newId (sessionStorage st1)\<rparr>
                       | (Inl err, st1) \<Rightarrow> toast SaveProgressFailed st1))))\<close>

text \<open>
  \<^verbatim>\<open>saveConsolidatedHistory\<close>, which the effect on \<^verbatim>\<open>pageAnalyses\<close> runs. Its
  \<^verbatim>\<open>catch\<close> only logs.
\<close>

definition saveConsolidatedHistory :: \<open>env \<Rightarrow> string option \<Rightarrow> component \<Rightarrow> component\<close> where
  \<open>saveConsolidatedHistory e sid st =
     (case user e of
        None \<Rightarrow> st
      | Some uid \<Rightarrow>
          (let analyzedPagesList = filter isAnalyzed (mapValues (closureMap st))
           in if length analyzedPagesList = 0 then st
              else
                (let analysisResult = analysisResultAll (inputFile e) analyzedPagesList;
                     pagesMap = pageAnalysesMapForFirestore (closureMap st)
                 in if truthyStr sid then
                      (case call_updateStudyHistory e (orElse sid []) analysisResult pagesMap st of
                         (Inr u, st1) \<Rightarrow> st1
                       | (Inl err, st1) \<Rightarrow> st1)
                    else
                      (case call_saveStudyHistory e uid ''analysis'' [analysisResult]
                              (saveMetadata e (closureMap st)) st of
                         (Inr newId, st1) \<Rightarrow> st1\<lparr>studyHistoryId := Some newId\<rparr>
                       | (Inl err, st1) \<Rightarrow> st1))))\<close>

text \<open>
  The effect on \<^verbatim>\<open>pageAnalyses\<close>, run by the render that follows a change of the map,
  and the effect that copies a truthy \<^verbatim>\<open>studyHistoryId\<close> to the session storage.
\<close>

definition effect_pageAnalyses :: \<open>env \<Rightarrow> component \<Rightarrow> component\<close> where
  \<open>effect_pageAnalyses e st =
     (let analyzedCount = length (filter isAnalyzed (mapValues (pageAnalyses st)))
      in if analyzedCount > 0 then saveConsolidatedHistory e (studyHistoryId st) (render st)
         else st)\<close>

definition effect_studyHistoryId :: \<open>env \<Rightarrow> component \<Rightarrow> component\<close> where
  \<open>effect_studyHistoryId e st =
     (if truthyStr (studyHistoryId st)
      then st\<lparr>sessionStorage :=
                setItem (sessionKey (inputFile e)) (orElse (studyHistoryId st) []) (sessionStorage st)\<rparr>
      else st)\<close>

subsection \<open>Analysis of one page and of all pages\<close>

definition maxRetries :: nat where
  \<open>maxRetries = 3\<close>

definition emptyAnalysis :: \<open>nat \<Rightarrow> PageAnalysis\<close> where
  \<open>emptyAnalysis pageNo =
     \<lparr>pageNumber = pageNo, keyPoints = [], studyPoints = [],
      summary = ''No text content found on this page.'',
      tnpscRelevance = ''Not applicable for this page.'',
      tnpscCategories = None, isAnalyzed = True\<rparr>\<close>

text \<open>\<^verbatim>\<open>{ ...analysis, isAnalyzed: true }\<close>\<close>

definition completed :: \<open>IndividualPage \<Rightarrow> PageAnalysis\<close> where
  \<open>completed analysis = IndividualPage.extend analysis (PageAnalysis.fields True)\<close>

text \<open>\<^verbatim>\<open>error.message && error.message.includes("429")\<close>\<close>

definition rateLimited :: \<open>error \<Rightarrow> bool\<close> where
  \<open>rateLimited err = (message err \<noteq> [] \<and> str_includes (message err) ''429'')\<close>

text \<open>
  The call of the Analysis Client for a page, as \<^verbatim>\<open>analyzePage\<close> makes it, with the
  wait for its outcome: \<^verbatim>\<open>await analyzeIndividualPage(pageContent, n, outputLanguage)\<close>.
\<close>

definition client :: \<open>env \<Rightarrow> nat \<Rightarrow> component \<Rightarrow> (error + IndividualPage) \<times> component\<close> where
  \<open>client e n st =
     (case analyzeIndividualPage (gemini e) (pageText e n) n (outputLanguage e) st of
        (r, st1) \<Rightarrow> (r, rerender st1))\<close>

text \<open>The \<^verbatim>\<open>for\<close> loop of \<^verbatim>\<open>analyzePage\<close>, at the attempt and delay given.\<close>

function analyzePage_loop ::
  \<open>env \<Rightarrow> string option \<Rightarrow> nat \<Rightarrow> nat \<Rightarrow> nat \<Rightarrow> component \<Rightarrow> (error + unit) \<times> component\<close> where
  \<open>analyzePage_loop e sid pageNo attempt delay st =
     (if attempt < maxRetries then
        (let pageContent = pageText e pageNo
         in if trim pageContent = [] then
              (Inr (),
               (setPageAnalyses pageNo (emptyAnalysis pageNo) (toast (SkippingPage pageNo) st))
                 \<lparr>isAnalyzing := False\<rparr>)
            else
              (case client e pageNo st of
                 (Inr analysis, st1) \<Rightarrow>
                   (let pageAnalysis = completed analysis;
                        st2 = setPageAnalyses pageNo pageAnalysis st1;
                        st3 = saveConsolidatedHistoryForPage e sid pageNo pageAnalysis st2;
                        st4 = toast (PageAnalyzed pageNo) st3
                    in (Inr (), st4\<lparr>isAnalyzing := False\<rparr>))
               | (Inl err, st1) \<Rightarrow>
                   if rateLimited err \<and> attempt < maxRetries - 1 then
                     analyzePage_loop e sid pageNo (Suc attempt) (delay * 2)
                       (sleep RateLimitBackoff delay (toast (RateLimitRetry pageNo delay) st1))
                   else
                     (Inl err, (toast (PageFailed pageNo (attempt + 1)) st1)\<lparr>isAnalyzing := False\<rparr>)))
      else (Inr (), st))\<close>
  by pat_completeness auto
termination
  by (relation \<open>measure (\<lambda>(e, sid, pageNo, attempt, delay, st). maxRetries - attempt)\<close>) auto

declare analyzePage_loop.simps [simp del]

definition analyzePage ::
  \<open>env \<Rightarrow> string option \<Rightarrow> nat \<Rightarrow> component \<Rightarrow> (error + unit) \<times> component\<close> where
  \<open>analyzePage e sid pageNo st =
     (if analyzedIn (closureMap st) pageNo then (Inr (), st)
      else analyzePage_loop e sid pageNo 0 2000 (st\<lparr>isAnalyzing := True\<rparr>))\<close>

text \<open>
  The \<^verbatim>\<open>for\<close> loop of \<^verbatim>\<open>analyzeAllPages\<close> from page \<open>i\<close> on; the result is
  \<^verbatim>\<open>analysisSucceeded\<close>.
\<close>

function analyzeAllPages_loop ::
  \<open>env \<Rightarrow> string option \<Rightarrow> nat \<Rightarrow> component \<Rightarrow> bool \<times> component\<close> where
  \<open>analyzeAllPages_loop e sid i st =
     (if i \<le> totalPages e then
        (if \<not> analyzedIn (closureMap st) i then
           (case analyzePage e sid i st of
              (Inr u, st1) \<Rightarrow>
                analyzeAllPages_loop e sid (Suc i)
                  (if i < totalPages e then sleep PoliteDelay 1000 st1 else st1)
            | (Inl err, st1) \<Rightarrow> (False, toast (AnalysisStopped i) st1))
         else analyzeAllPages_loop e sid (Suc i) st)
      else (True, st))\<close>
  by pat_completeness auto
termination
  by (relation \<open>measure (\<lambda>(e, sid, i, st). Suc (totalPages e) - i)\<close>) auto

declare analyzeAllPages_loop.simps [simp del]

definition analyzeAllPages :: \<open>env \<Rightarrow> string option \<Rightarrow> component \<Rightarrow> component\<close> where
  \<open>analyzeAllPages e sid st =
     (case analyzeAllPages_loop e sid 1 (st\<lparr>isAnalyzing := True\<rparr>) of
        (analysisSucceeded, st1) \<Rightarrow>
          (let st2 =
                 (if analysisSucceeded then
                    (let finalAnalyzedCount = length (filter isAnalyzed (mapValues (closureMap st1)))
                     in if finalAnalyzedCount = totalPages e then toast AllPagesAnalyzed st1 else st1)
                  else st1)
           in st2\<lparr>isAnalyzing := False\<rparr>))\<close>

text \<open>
  The entry points: a function of the latest render is called, by a click or by an effect
  of that render.
\<close>

definition run_analyzePage :: \<open>env \<Rightarrow> nat \<Rightarrow> component \<Rightarrow> (error + unit) \<times> component\<close> where
  \<open>run_analyzePage e pageNo st = analyzePage e (studyHistoryId st) pageNo (render st)\<close>

definition run_analyzeAllPages :: \<open>env \<Rightarrow> component \<Rightarrow> component\<close> where
  \<open>run_analyzeAllPages e st = analyzeAllPages e (studyHistoryId st) (render st)\<close>

subsection \<open>Reading the trace\<close>

definition isTransport :: \<open>event \<Rightarrow> bool\<close> where
  \<open>isTransport ev =
     (case ev of GenerateContent p \<Rightarrow> True | SetTimeout site ms \<Rightarrow> site = TransportBackoff
      | _ \<Rightarrow> False)\<close>

definition isClientCall :: \<open>event \<Rightarrow> bool\<close> where
  \<open>isClientCall ev = (case ev of AnalyzeIndividualPage n \<Rightarrow> True | _ \<Rightarrow> False)\<close>

definition isCreate :: \<open>event \<Rightarrow> bool\<close> where
  \<open>isCreate ev = (case ev of SaveStudyHistory u k rs m \<Rightarrow> True | _ \<Rightarrow> False)\<close>

definition isUpdate :: \<open>event \<Rightarrow> bool\<close> where
  \<open>isUpdate ev = (case ev of UpdateStudyHistory i r m \<Rightarrow> True | _ \<Rightarrow> False)\<close>

definition isStoreCall :: \<open>event \<Rightarrow> bool\<close> where
  \<open>isStoreCall ev = (isCreate ev \<or> isUpdate ev)\<close>

text \<open>The number of calls of the Analysis Client in a trace.\<close>

definition clientCalls :: \<open>event list \<Rightarrow> nat\<close> where
  \<open>clientCalls tr = length (filter isClientCall tr)\<close>

text \<open>The delays of the rate limit backoff in a trace, in order.\<close>

definition backoffs :: \<open>event list \<Rightarrow> nat list\<close> where
  \<open>backoffs tr =
     concat (map (\<lambda>ev. case ev of
                          SetTimeout site ms \<Rightarrow> if site = RateLimitBackoff then [ms] else []
                        | _ \<Rightarrow> [])
                 tr)\<close>

text \<open>
  The times at which the calls of the Analysis Client in a trace are issued, on a clock
  that starts at \<open>t\<close> and that only the timers advance: a lower bound of the real times,
  since a call takes time as well.
\<close>

fun callTimes :: \<open>nat \<Rightarrow> event list \<Rightarrow> nat list\<close> where
  \<open>callTimes t [] = []\<close>
| \<open>callTimes t (SetTimeout site ms # evs) = callTimes (t + ms) evs\<close>
| \<open>callTimes t (AnalyzeIndividualPage n # evs) = t # callTimes t evs\<close>
| \<open>callTimes t (ev # evs) = callTimes t evs\<close>

text \<open>The events a function has added to the trace.\<close>

definition newEvents :: \<open>'a world_scheme \<Rightarrow> 'b world_scheme \<Rightarrow> event list\<close> where
  \<open>newEvents st st' = drop (length (trace st)) (trace st')\<close>

text \<open>
  \<open>extendsBy P st st'\<close>: the trace of \<open>st'\<close> is the trace of \<open>st\<close> followed by events
  that all satisfy \<open>P\<close>.
\<close>

definition extendsBy :: \<open>(event \<Rightarrow> bool) \<Rightarrow> 'a world_scheme \<Rightarrow> 'b world_scheme \<Rightarrow> bool\<close> where
  \<open>extendsBy P st st' = (\<exists>evs. trace st' = trace st @ evs \<and> (\<forall>ev \<in> set evs. P ev))\<close>

text \<open>
  The events that \<^verbatim>\<open>analyzePage\<close> for page \<open>n\<close> can add when its render saw \<open>sid\<close> as
  \<^verbatim>\<open>studyHistoryId\<close>.
\<close>

definition pageToast :: \<open>nat \<Rightarrow> toast \<Rightarrow> bool\<close> where
  \<open>pageToast n t =
     (case t of SkippingPage m \<Rightarrow> m = n | PageAnalyzed m \<Rightarrow> m = n
      | RateLimitRetry m d \<Rightarrow> m = n | PageFailed m k \<Rightarrow> m = n
      | SaveProgressFailed \<Rightarrow> True | _ \<Rightarrow> False)\<close>

definition storeEventFor :: \<open>string option \<Rightarrow> event \<Rightarrow> bool\<close> where
  \<open>storeEventFor sid ev =
     (case ev of SaveStudyHistory u k rs m \<Rightarrow> \<not> truthyStr sid
      | UpdateStudyHistory i r m \<Rightarrow> truthyStr sid \<and> sid = Some i
      | _ \<Rightarrow> True)\<close>

definition pageEvent :: \<open>string option \<Rightarrow> nat \<Rightarrow> event \<Rightarrow> bool\<close> where
  \<open>pageEvent sid n ev =
     (storeEventFor sid ev
      \<and> (case ev of AnalyzeIndividualPage m \<Rightarrow> m = n
          | SetTimeout site ms \<Rightarrow> site \<noteq> PoliteDelay
          | Toast t \<Rightarrow> pageToast n t
          | _ \<Rightarrow> True))\<close>

text \<open>
  What a run of \<^verbatim>\<open>analyzePage\<close> for page \<open>n\<close> does to the two \<^verbatim>\<open>Map\<close> objects:
  it completes the page, or it leaves the maps as they are.
\<close>

definition completesPage :: \<open>nat \<Rightarrow> component \<Rightarrow> component \<Rightarrow> bool\<close> where
  \<open>completesPage n st st' =
     (\<exists>a. isAnalyzed a \<and> pageAnalyses st' = mapSet (pageAnalyses st) n a
         \<and> closureQueued st' = (if closureShared st then mapSet (pageAnalyses st) n a else closureQueued st)
         \<and> \<not> closureShared st')\<close>

definition sameMaps :: \<open>component \<Rightarrow> component \<Rightarrow> bool\<close> where
  \<open>sameMaps st st' =
     (pageAnalyses st' = pageAnalyses st \<and> closureQueued st' = closureQueued st
      \<and> closureShared st' = closureShared st)\<close>

text \<open>
  A document whose first page is blank (a no-break space, a space and a line feed); the
  model and the store always fail.
\<close>

definition envBlank :: env where
  \<open>envBlank =
     \<lparr>inputFile = \<lparr>file_name = ''f.pdf'', file_size = 10\<rparr>, totalPages = 2,
      pageText = (\<lambda>n. if n = 1 then [CHR 0xA0] @ '' '' @ nl else ''text''),
      outputLanguage = english,
      initialPageAnalyses = None, initialStudyHistoryId = None, user = Some ''u1'',
      gemini = (\<lambda>k p. Inl (Error ''503'')),
      saveStudyHistory = (\<lambda>k uid kind rs meta. Inl (Error ''unavailable'')),
      updateStudyHistory = (\<lambda>k i r m. Inl (Error ''unavailable''))\<rparr>\<close>

text \<open>The time that the timers of a trace take in all.\<close>

definition elapsed :: \<open>event list \<Rightarrow> nat\<close> where
  \<open>elapsed tr = sum_list (map (\<lambda>ev. case ev of SetTimeout site ms \<Rightarrow> ms | _ \<Rightarrow> 0) tr)\<close>

text \<open>
  Example documents of two pages: one whose model requests always fail with a server
  error, and one whose first three model requests fail with the rate limit status, so
  that the first call of the Analysis Client fails with the rate limit signal and the
  second succeeds. The store accepts every call.
\<close>

definition rawPage :: RawAnalysis where
  \<open>rawPage =
     \<lparr>raw_keyPoints = Some [''k''], raw_studyPoints = None, raw_summary = Some ''s'',
      raw_tnpscRelevance = None, raw_tnpscCategories = None\<rparr>\<close>

definition envFail :: env where
  \<open>envFail =
     \<lparr>inputFile = \<lparr>file_name = ''f.pdf'', file_size = 10\<rparr>, totalPages = 2,
      pageText = (\<lambda>n. ''text''), outputLanguage = english,
      initialPageAnalyses = None, initialStudyHistoryId = None, user = Some ''u1'',
      gemini = (\<lambda>k p. Inl (Error ''HTTP 500'')),
      saveStudyHistory = (\<lambda>k uid kind rs meta. Inr (''id'' @ toString k)),
      updateStudyHistory = (\<lambda>k i r m. Inr ())\<rparr>\<close>

definition envRateLimited :: env where
  \<open>envRateLimited =
     envFail\<lparr>gemini := (\<lambda>k p. if k < 3 then Inl (Error ''HTTP 429 Too Many Requests'')
                              else Inr rawPage)\<rparr>\<close>

text \<open>The pages of the calls of the Analysis Client in a trace, in order.\<close>

definition clientPages :: \<open>event list \<Rightarrow> nat list\<close> where
  \<open>clientPages tr = concat (map (\<lambda>ev. case ev of AnalyzeIndividualPage n \<Rightarrow> [n] | _ \<Rightarrow> []) tr)\<close>

text \<open>
  The notification that ends a successful \<^verbatim>\<open>analyzePage\<close>: the page was analyzed, or it
  was skipped as blank.
\<close>

fun finishedPage :: \<open>event \<Rightarrow> nat option\<close> where
  \<open>finishedPage (Toast (PageAnalyzed n)) = Some n\<close>
| \<open>finishedPage (Toast (SkippingPage n)) = Some n\<close>
| \<open>finishedPage ev = None\<close>

text \<open>
  \<open>polite N tr\<close>: in the trace, every successful analysis of a page before the last
  page \<open>N\<close> is followed at once by the delay of 1000 ms.
\<close>

fun polite :: \<open>nat \<Rightarrow> event list \<Rightarrow> bool\<close> where
  \<open>polite N [] = True\<close>
| \<open>polite N (ev # evs) =
     ((case finishedPage ev of
         Some i \<Rightarrow> i < N \<longrightarrow> (case evs of [] \<Rightarrow> False | next # rest \<Rightarrow> next = SetTimeout PoliteDelay 1000)
       | None \<Rightarrow> True)
      \<and> polite N evs)\<close>

text \<open>
  The events that the loop of \<^verbatim>\<open>analyzeAllPages\<close> can add while it works on the pages
  from \<open>lo\<close> to \<open>hi\<close>, its final notifications apart.
\<close>

definition batchEvent :: \<open>string option \<Rightarrow> nat \<Rightarrow> nat \<Rightarrow> event \<Rightarrow> bool\<close> where
  \<open>batchEvent sid lo hi ev =
     (storeEventFor sid ev
      \<and> (case ev of AnalyzeIndividualPage m \<Rightarrow> lo \<le> m \<and> m \<le> hi
          | SetTimeout site ms \<Rightarrow> site = PoliteDelay \<longrightarrow> ms = 1000
          | Toast t \<Rightarrow> (case t of AnalysisStopped m \<Rightarrow> False | AllPagesAnalyzed \<Rightarrow> False
                         | PageFailed m a \<Rightarrow> lo \<le> m \<and> m \<le> hi | _ \<Rightarrow> True)
          | _ \<Rightarrow> True))\<close>

text \<open>
  The \<^verbatim>\<open>Map\<close> of the running function, now and once the queued updaters have run, and
  the one React holds agree on the pages from \<open>i\<close> on.
\<close>

definition agreeFrom :: \<open>nat \<Rightarrow> component \<Rightarrow> bool\<close> where
  \<open>agreeFrom i st =
     (\<forall>j \<ge> i. map_of (closureMap st) j = map_of (pageAnalyses st) j
             \<and> map_of (closureQueued st) j = map_of (pageAnalyses st) j)\<close>


text \<open>
  A browser session whose storage holds an identifier for the example file.
\<close>

definition storageOld :: \<open>(string \<times> string) list\<close> where
  \<open>storageOld = [(''studyHistoryId_f.pdf_10'', ''old-id'')]\<close>

text \<open>
  The part of the state that the analysis reads and writes: the maps, the flags and the
  number of requests made to the model.
\<close>

definition progress ::
  \<open>component \<Rightarrow> PageMap \<times> PageMap \<times> PageMap \<times> bool \<times> bool \<times> nat\<close> where
  \<open>progress st =
     (pageAnalyses st, closureMap st, closureQueued st, closureShared st, isAnalyzing st,
      modelCalls st)\<close>

text \<open>Stores that always fail.\<close>

definition saveFails :: \<open>nat \<Rightarrow> string \<Rightarrow> string \<Rightarrow> AnalysisResult list \<Rightarrow> SaveMetadata \<Rightarrow> error + string\<close> where
  \<open>saveFails k uid kind rs meta = Inl (Error ''unavailable'')\<close>

definition updateFails ::
  \<open>nat \<Rightarrow> string \<Rightarrow> AnalysisResult \<Rightarrow> (string \<times> PageAnalysis) list \<Rightarrow> error + unit\<close> where
  \<open>updateFails k i r m = Inl (Error ''unavailable'')\<close>

text \<open>
  The progress map after the pages of a list have been completed in the order of the
  list, from an empty map: each completion is a \<^verbatim>\<open>setPageAnalyses\<close>.
\<close>

definition completeAll :: \<open>(nat \<times> PageAnalysis) list \<Rightarrow> PageMap\<close> where
  \<open>completeAll cs = foldl (\<lambda>m (n, a). mapSet m n a) [] cs\<close>

text \<open>\<^verbatim>\<open>analyzedPagesList\<close> of a map.\<close>

definition analyzedPagesList :: \<open>PageMap \<Rightarrow> PageAnalysis list\<close> where
  \<open>analyzedPagesList m = filter isAnalyzed (mapValues m)\<close>

text \<open>Three analyzed pages with one key point each, and a file.\<close>

definition examplePage :: \<open>nat \<Rightarrow> string \<Rightarrow> PageAnalysis\<close> where
  \<open>examplePage n point =
     \<lparr>pageNumber = n, keyPoints = [point], studyPoints = [], summary = ''s'', tnpscRelevance = ''r'',
      tnpscCategories = Some [], isAnalyzed = True\<rparr>\<close>

definition exampleFile :: File where
  \<open>exampleFile = \<lparr>file_name = ''f.pdf'', file_size = 10\<rparr>\<close>

definition order123 :: \<open>(nat \<times> PageAnalysis) list\<close> where
  \<open>order123 = [(1, examplePage 1 ''a''), (2, examplePage 2 ''b''), (3, examplePage 3 ''c'')]\<close>

definition order312 :: \<open>(nat \<times> PageAnalysis) list\<close> where
  \<open>order312 = [(3, examplePage 3 ''c''), (1, examplePage 1 ''a''), (2, examplePage 2 ''b'')]\<close>

text \<open>
  A document of two pages with text, a model that answers every request and a store that
  accepts every call and hands out the identifiers \<^verbatim>\<open>id0\<close>, \<^verbatim>\<open>id1\<close>, ... .
\<close>

definition envTwo :: env where
  \<open>envTwo = envFail\<lparr>gemini := (\<lambda>k p. Inr rawPage)\<rparr>\<close>

text \<open>
  The calls of the study history service in a trace, in order: a create with the pages
  it writes, or an update with its identifier and the pages it writes.
\<close>

datatype storeCall = Create \<open>string list\<close> | Update string \<open>string list\<close>

definition storeLog :: \<open>event list \<Rightarrow> storeCall list\<close> where
  \<open>storeLog tr =
     concat (map (\<lambda>ev. case ev of
                          SaveStudyHistory uid kind results meta \<Rightarrow> [Create (map fst (pageAnalysesMap meta))]
                        | UpdateStudyHistory historyId result pagesMap \<Rightarrow> [Update historyId (map fst pagesMap)]
                        | _ \<Rightarrow> [])
                 tr)\<close>

text \<open>The prompts of the requests made to the model in a trace, in order.\<close>

definition requests :: \<open>event list \<Rightarrow> string list\<close> where
  \<open>requests tr = concat (map (\<lambda>ev. case ev of GenerateContent p \<Rightarrow> [p] | _ \<Rightarrow> []) tr)\<close>

text \<open>
  A page text of 15000 spaces followed by a letter, in a document whose model answers
  every request; and the same document with the page text cut to its first 15000
  characters.
\<close>

definition longText :: string where
  \<open>longText = replicate 15000 (CHR 0x20) @ ''x''\<close>

definition envLong :: env where
  \<open>envLong = envFail\<lparr>pageText := (\<lambda>n. longText), gemini := (\<lambda>k p. Inr rawPage)\<rparr>\<close>

definition envCut :: env where
  \<open>envCut = envLong\<lparr>pageText := (\<lambda>n. take 15000 longText)\<rparr>\<close>





text \<open>The merged records that the requests to the store in a trace carry, in order.\<close>

definition sentRecords :: \<open>event list \<Rightarrow> AnalysisResult list\<close> where
  \<open>sentRecords tr =
     concat (map (\<lambda>ev. case ev of
                          SaveStudyHistory uid kind results meta \<Rightarrow> results
                        | UpdateStudyHistory historyId result pagesMap \<Rightarrow> [result]
                        | _ \<Rightarrow> [])
                 tr)\<close>

text \<open>The component after the pages of a list have been completed in the order of the list.\<close>

definition completions :: \<open>(nat \<times> PageAnalysis) list \<Rightarrow> component \<Rightarrow> component\<close> where
  \<open>completions cs st = foldl (\<lambda>s (n, a). setPageAnalyses n a s) st cs\<close>

text \<open>
  A state in which React holds the pages 1 and 2 while the \<^verbatim>\<open>Map\<close> of the running
  function holds page 1 only.
\<close>

definition staleState :: component where
  \<open>staleState =
     (mount envTwo [])\<lparr>pageAnalyses := [(1, examplePage 1 ''a''), (2, examplePage 2 ''b'')],
                       closureMap := [(1, examplePage 1 ''a'')],
                       closureQueued := [(1, examplePage 1 ''a'')], closureShared := False\<rparr>\<close>


text \<open>The initialiser of the \<^verbatim>\<open>currentPage\<close> state.\<close>

definition initialCurrentPage :: \<open>env \<Rightarrow> nat\<close> where
  \<open>initialCurrentPage e =
     (case initialPageAnalyses e of
        None \<Rightarrow> 1
      | Some m \<Rightarrow>
          if length m > 0
          then (let analyzedPages = sort (map fst m);
                    lastAnalyzedPage = last analyzedPages
                in min (lastAnalyzedPage + 1) (totalPages e))
          else 1)\<close>

text \<open>
  \<^verbatim>\<open>analyzePage\<close> called by the latest render, together with what React does while it
  runs. Setting a state makes React render the component again. The render that follows
  \<^verbatim>\<open>setPageAnalyses\<close> has a new \<^verbatim>\<open>Map\<close>, so it runs the effect on \<^verbatim>\<open>pageAnalyses\<close>,
  which calls that render's \<^verbatim>\<open>saveConsolidatedHistory\<close> when a page is analyzed. This
  render comes while \<^verbatim>\<open>saveConsolidatedHistoryForPage\<close> waits for the answer of the
  store to the request it has made (or, when it makes none, after \<^verbatim>\<open>analyzePage\<close> has
  returned): no answer has set an identifier yet, so the \<^verbatim>\<open>studyHistoryId\<close> of that
  render is the one the component held when \<^verbatim>\<open>analyzePage\<close> was called, and the request
  of the effect follows that of the function. The answers are taken in the order of the
  requests. A render in which \<^verbatim>\<open>studyHistoryId\<close> has changed runs the effect that copies
  it to the session storage.
\<close>

definition analyzePage_rendered :: \<open>env \<Rightarrow> nat \<Rightarrow> component \<Rightarrow> (error + unit) \<times> component\<close> where
  \<open>analyzePage_rendered e pageNo st =
     (case run_analyzePage e pageNo st of
        (r, st1) \<Rightarrow>
          (let analyzedCount = length (filter isAnalyzed (mapValues (pageAnalyses st1)));
               st2 = (if pageAnalyses st1 \<noteq> pageAnalyses st \<and> analyzedCount > 0
                      then saveConsolidatedHistory e (studyHistoryId st) (render st1)
                      else st1)
           in (r, if studyHistoryId st2 \<noteq> studyHistoryId st then effect_studyHistoryId e st2
                  else st2)))\<close>

text \<open>
  The effect of the first render that analyses the current page (``Auto-analyze current
  page on load''); a failure is logged only.
\<close>

definition effect_autoAnalyze :: \<open>env \<Rightarrow> component \<Rightarrow> component\<close> where
  \<open>effect_autoAnalyze e st =
     (let currentPage = initialCurrentPage e
      in if \<not> analyzedIn (pageAnalyses st) currentPage
         then snd (analyzePage_rendered e currentPage st)
         else st)\<close>


section \<open>Properties of the Gemini service\<close>

subsection \<open>Sanitised questions\<close>






section \<open>Facts about the analysis of one page\<close>

lemma rerender_fields [simp]:
  \<open>trace (rerender st) = trace st\<close>
  \<open>modelCalls (rerender st) = modelCalls st\<close>
  \<open>storeCalls (rerender st) = storeCalls st\<close>
  \<open>pageAnalyses (rerender st) = pageAnalyses st\<close>
  \<open>studyHistoryId (rerender st) = studyHistoryId st\<close>
  \<open>isAnalyzing (rerender st) = isAnalyzing st\<close>
  \<open>sessionStorage (rerender st) = sessionStorage st\<close>
  \<open>closureMap (rerender st) = closureQueued st\<close>
  \<open>closureQueued (rerender st) = closureQueued st\<close>
  \<open>closureShared (rerender st) = closureShared st\<close>
  by (simp_all add: rerender_def)

lemma sleep_fields [simp]:
  \<open>trace (sleep site ms st) = trace st @ [SetTimeout site ms]\<close>
  \<open>modelCalls (sleep site ms st) = modelCalls st\<close>
  \<open>storeCalls (sleep site ms st) = storeCalls st\<close>
  \<open>pageAnalyses (sleep site ms st) = pageAnalyses st\<close>
  \<open>studyHistoryId (sleep site ms st) = studyHistoryId st\<close>
  \<open>isAnalyzing (sleep site ms st) = isAnalyzing st\<close>
  \<open>sessionStorage (sleep site ms st) = sessionStorage st\<close>
  \<open>closureMap (sleep site ms st) = closureQueued st\<close>
  \<open>closureQueued (sleep site ms st) = closureQueued st\<close>
  \<open>closureShared (sleep site ms st) = closureShared st\<close>
  by (simp_all add: sleep_def setTimeout_def emit_def)

lemma generateContentWithRetry_loop_world:
  \<open>\<exists>k evs. snd (generateContentWithRetry_loop gen request retries i lastError st)
             = st\<lparr>modelCalls := modelCalls st + k, trace := trace st @ evs\<rparr>
           \<and> (\<forall>ev \<in> set evs. isTransport ev)\<close>
proof (induction gen request retries i lastError st rule: generateContentWithRetry_loop.induct)
  case (1 gen request retries i lastError st)
  show ?case
  proof (cases \<open>i < retries\<close>)
    case False
    then have \<open>snd (generateContentWithRetry_loop gen request retries i lastError st)
               = st\<lparr>modelCalls := modelCalls st + 0, trace := trace st @ []\<rparr>\<close>
      by (subst generateContentWithRetry_loop.simps) simp
    then show ?thesis by (metis empty_iff list.set(1))
  next
    case True
    let ?st1 = \<open>emit (GenerateContent request) (st\<lparr>modelCalls := Suc (modelCalls st)\<rparr>)\<close>
    show ?thesis
    proof (cases \<open>gen (modelCalls st) request\<close>)
      case (Inr v)
      with True have \<open>snd (generateContentWithRetry_loop gen request retries i lastError st)
                 = st\<lparr>modelCalls := modelCalls st + 1, trace := trace st @ [GenerateContent request]\<rparr>\<close>
        by (subst generateContentWithRetry_loop.simps) (simp add: model_generateContent_def emit_def)
      moreover have \<open>\<forall>ev \<in> set [GenerateContent request]. isTransport ev\<close>
        by (simp add: isTransport_def)
      ultimately show ?thesis by blast
    next
      case (Inl err)
      let ?st2 = \<open>if i < retries - 1 then setTimeout TransportBackoff (1000 * (i + 1)) ?st1 else ?st1\<close>
      let ?evs = \<open>if i < retries - 1 then [GenerateContent request, SetTimeout TransportBackoff (1000 * (i + 1))]
                  else [GenerateContent request]\<close>
      have st2: \<open>?st2 = st\<lparr>modelCalls := modelCalls st + 1, trace := trace st @ ?evs\<rparr>\<close>
        by (simp add: emit_def setTimeout_def)
      have step: \<open>generateContentWithRetry_loop gen request retries i lastError st
                  = generateContentWithRetry_loop gen request retries (Suc i) (Some err) ?st2\<close>
        using True Inl by (subst generateContentWithRetry_loop.simps) (simp add: model_generateContent_def)
      have \<open>\<exists>k evs. snd (generateContentWithRetry_loop gen request retries (Suc i) (Some err) ?st2)
              = ?st2\<lparr>modelCalls := modelCalls ?st2 + k, trace := trace ?st2 @ evs\<rparr>
              \<and> (\<forall>ev \<in> set evs. isTransport ev)\<close>
        by (rule "1.IH" [OF True, of \<open>Inl err\<close> ?st1 err])
           (simp_all add: model_generateContent_def Inl)
      then obtain k evs where
        rec: \<open>snd (generateContentWithRetry_loop gen request retries (Suc i) (Some err) ?st2)
              = ?st2\<lparr>modelCalls := modelCalls ?st2 + k, trace := trace ?st2 @ evs\<rparr>\<close>
        and tr: \<open>\<forall>ev \<in> set evs. isTransport ev\<close>
        by blast
      have \<open>snd (generateContentWithRetry_loop gen request retries i lastError st)
            = st\<lparr>modelCalls := modelCalls st + (1 + k), trace := trace st @ (?evs @ evs)\<rparr>\<close>
        unfolding step rec by (subst st2)+ simp
      moreover have \<open>\<forall>ev \<in> set (?evs @ evs). isTransport ev\<close>
        using tr by (simp add: isTransport_def)
      ultimately show ?thesis by blast
    qed
  qed
qed

lemma analyzeIndividualPage_world:
  \<open>\<exists>k evs. snd (analyzeIndividualPage gen textContent n lang st)
             = st\<lparr>modelCalls := modelCalls st + k, trace := trace st @ AnalyzeIndividualPage n # evs\<rparr>
           \<and> (\<forall>ev \<in> set evs. isTransport ev)\<close>
proof -
  let ?st0 = \<open>emit (AnalyzeIndividualPage n) st\<close>
  from generateContentWithRetry_loop_world [of gen \<open>pagePrompt textContent n lang\<close> 3 0 None ?st0]
  obtain k evs where
    r: \<open>snd (generateContentWithRetry gen (pagePrompt textContent n lang) 3 ?st0)
        = ?st0\<lparr>modelCalls := modelCalls ?st0 + k, trace := trace ?st0 @ evs\<rparr>\<close>
    and tr: \<open>\<forall>ev \<in> set evs. isTransport ev\<close>
    by (auto simp: generateContentWithRetry_def)
  have \<open>snd (analyzeIndividualPage gen textContent n lang st)
        = snd (generateContentWithRetry gen (pagePrompt textContent n lang) 3 ?st0)\<close>
    by (simp add: analyzeIndividualPage_def split: prod.split sum.split)
  also have \<open>\<dots> = st\<lparr>modelCalls := modelCalls st + k, trace := trace st @ AnalyzeIndividualPage n # evs\<rparr>\<close>
    unfolding r by (simp add: emit_def)
  finally show ?thesis using tr by blast
qed

lemma isAnalyzed_completed [simp]: \<open>isAnalyzed (completed a)\<close>
  by (simp add: completed_def IndividualPage.defs PageAnalysis.defs)

lemma analyzePage_loop_exhausted:
  \<open>\<not> attempt < maxRetries \<Longrightarrow> analyzePage_loop e sid n attempt delay st = (Inr (), st)\<close>
  by (subst analyzePage_loop.simps) simp

lemma analyzePage_loop_blank:
  \<open>attempt < maxRetries \<Longrightarrow> trim (pageText e n) = [] \<Longrightarrow>
   analyzePage_loop e sid n attempt delay st =
     (Inr (), (setPageAnalyses n (emptyAnalysis n) (toast (SkippingPage n) st))\<lparr>isAnalyzing := False\<rparr>)\<close>
  by (subst analyzePage_loop.simps) simp

lemma analyzePage_loop_success:
  \<open>attempt < maxRetries \<Longrightarrow> trim (pageText e n) \<noteq> [] \<Longrightarrow> client e n st = (Inr a, st1) \<Longrightarrow>
   analyzePage_loop e sid n attempt delay st =
     (Inr (),
      (toast (PageAnalyzed n)
         (saveConsolidatedHistoryForPage e sid n (completed a)
            (setPageAnalyses n (completed a) st1)))\<lparr>isAnalyzing := False\<rparr>)\<close>
  by (subst analyzePage_loop.simps) (simp add: completed_def Let_def)

lemma analyzePage_loop_retry:
  \<open>attempt < maxRetries \<Longrightarrow> trim (pageText e n) \<noteq> [] \<Longrightarrow> client e n st = (Inl err, st1) \<Longrightarrow>
   rateLimited err \<Longrightarrow> attempt < maxRetries - 1 \<Longrightarrow>
   analyzePage_loop e sid n attempt delay st =
     analyzePage_loop e sid n (Suc attempt) (delay * 2)
       (sleep RateLimitBackoff delay (toast (RateLimitRetry n delay) st1))\<close>
  by (subst analyzePage_loop.simps) simp

lemma analyzePage_loop_fail:
  \<open>attempt < maxRetries \<Longrightarrow> trim (pageText e n) \<noteq> [] \<Longrightarrow> client e n st = (Inl err, st1) \<Longrightarrow>
   \<not> (rateLimited err \<and> attempt < maxRetries - 1) \<Longrightarrow>
   analyzePage_loop e sid n attempt delay st =
     (Inl err, (toast (PageFailed n (attempt + 1)) st1)\<lparr>isAnalyzing := False\<rparr>)\<close>
  by (subst analyzePage_loop.simps) auto

lemma client_world:
  \<open>\<exists>k evs. snd (client e n st)
             = st\<lparr>modelCalls := modelCalls st + k, trace := trace st @ AnalyzeIndividualPage n # evs,
                  closureMap := closureQueued st\<rparr>
           \<and> (\<forall>ev \<in> set evs. isTransport ev)\<close>
proof -
  from analyzeIndividualPage_world [of \<open>gemini e\<close> \<open>pageText e n\<close> n \<open>outputLanguage e\<close> st]
  obtain k evs where
    w: \<open>snd (analyzeIndividualPage (gemini e) (pageText e n) n (outputLanguage e) st)
        = st\<lparr>modelCalls := modelCalls st + k, trace := trace st @ AnalyzeIndividualPage n # evs\<rparr>\<close>
    and tr: \<open>\<forall>ev \<in> set evs. isTransport ev\<close>
    by blast
  have \<open>snd (client e n st)
        = rerender (snd (analyzeIndividualPage (gemini e) (pageText e n) n (outputLanguage e) st))\<close>
    by (simp add: client_def split: prod.split)
  then have \<open>snd (client e n st)
        = st\<lparr>modelCalls := modelCalls st + k, trace := trace st @ AnalyzeIndividualPage n # evs,
             closureMap := closureQueued st\<rparr>\<close>
    unfolding w by (simp add: rerender_def)
  with tr show ?thesis by blast
qed

lemma client_seen: \<open>client e n st = (r, st1) \<Longrightarrow> closureMap st1 = closureQueued st\<close>
  using client_world [of e n st] by auto

lemma saveConsolidatedHistoryForPage_trace:
  \<open>\<exists>evs. trace (saveConsolidatedHistoryForPage e sid n a st) = trace st @ evs
         \<and> (\<forall>ev \<in> set evs. (isStoreCall ev \<and> storeEventFor sid ev) \<or> ev = Toast SaveProgressFailed)\<close>
  by (auto simp: saveConsolidatedHistoryForPage_def call_updateStudyHistory_def
        call_saveStudyHistory_def toast_def emit_def isStoreCall_def isCreate_def isUpdate_def
        storeEventFor_def truthyStr_def orElse_def Let_def
      split: option.split sum.split)

lemma saveConsolidatedHistoryForPage_frame [simp]:
  \<open>pageAnalyses (saveConsolidatedHistoryForPage e sid n a st) = pageAnalyses st\<close>
  \<open>closureQueued (saveConsolidatedHistoryForPage e sid n a st) = closureQueued st\<close>
  \<open>closureShared (saveConsolidatedHistoryForPage e sid n a st) = closureShared st\<close>
  \<open>modelCalls (saveConsolidatedHistoryForPage e sid n a st) = modelCalls st\<close>
  \<open>isAnalyzing (saveConsolidatedHistoryForPage e sid n a st) = isAnalyzing st\<close>
  by (auto simp: saveConsolidatedHistoryForPage_def call_updateStudyHistory_def
        call_saveStudyHistory_def toast_def emit_def Let_def
      split: option.split sum.split)

lemma extendsBy_refl [simp]: \<open>extendsBy P st st\<close>
  by (simp add: extendsBy_def)

lemma extendsBy_trans:
  \<open>extendsBy P st st1 \<Longrightarrow> extendsBy P st1 st2 \<Longrightarrow> extendsBy P st st2\<close>
  unfolding extendsBy_def by (metis Un_iff append.assoc set_append)

lemma extendsBy_mono:
  \<open>extendsBy P st st' \<Longrightarrow> (\<And>ev. P ev \<Longrightarrow> Q ev) \<Longrightarrow> extendsBy Q st st'\<close>
  unfolding extendsBy_def by blast

lemma extendsBy_trace_eq:
  \<open>trace st1 = trace st \<Longrightarrow> trace st1' = trace st' \<Longrightarrow> extendsBy P st st' \<Longrightarrow> extendsBy P st1 st1'\<close>
  by (simp add: extendsBy_def)

lemma extendsBy_emit: \<open>P ev \<Longrightarrow> extendsBy P st (emit ev st)\<close>
  by (simp add: extendsBy_def emit_def)

lemma client_frame:
  assumes \<open>client e n st = (r1, st1)\<close>
  shows \<open>extendsBy (pageEvent sid n) st st1\<close> and \<open>sameMaps st st1\<close>
    and \<open>isAnalyzing st1 = isAnalyzing st\<close> and \<open>storeCalls st1 = storeCalls st\<close>
    and \<open>studyHistoryId st1 = studyHistoryId st\<close> and \<open>sessionStorage st1 = sessionStorage st\<close>
proof -
  from client_world [of e n st] assms obtain k evs where
    st1: \<open>st1 = st\<lparr>modelCalls := modelCalls st + k, trace := trace st @ AnalyzeIndividualPage n # evs,
                   closureMap := closureQueued st\<rparr>\<close>
    and tr: \<open>\<forall>ev \<in> set evs. isTransport ev\<close>
    by auto
  have \<open>\<forall>ev \<in> set (AnalyzeIndividualPage n # evs). pageEvent sid n ev\<close>
    using tr by (auto simp: isTransport_def pageEvent_def storeEventFor_def split: event.splits)
  then show \<open>extendsBy (pageEvent sid n) st st1\<close>
    unfolding extendsBy_def st1 by auto
  show \<open>sameMaps st st1\<close> \<open>isAnalyzing st1 = isAnalyzing st\<close> \<open>storeCalls st1 = storeCalls st\<close>
    \<open>studyHistoryId st1 = studyHistoryId st\<close> \<open>sessionStorage st1 = sessionStorage st\<close>
    by (simp_all add: st1 sameMaps_def)
qed

lemma saveConsolidatedHistoryForPage_extendsBy:
  \<open>extendsBy (pageEvent sid n) st (saveConsolidatedHistoryForPage e sid n a st)\<close>
proof -
  from saveConsolidatedHistoryForPage_trace [of e sid n a st] obtain evs where
    \<open>trace (saveConsolidatedHistoryForPage e sid n a st) = trace st @ evs\<close>
    \<open>\<forall>ev \<in> set evs. (isStoreCall ev \<and> storeEventFor sid ev) \<or> ev = Toast SaveProgressFailed\<close>
    by blast
  moreover have \<open>(isStoreCall ev \<and> storeEventFor sid ev) \<or> ev = Toast SaveProgressFailed
                 \<Longrightarrow> pageEvent sid n ev\<close> for ev
    by (auto simp: isStoreCall_def isCreate_def isUpdate_def pageEvent_def pageToast_def
          storeEventFor_def split: event.splits)
  ultimately show ?thesis unfolding extendsBy_def by blast
qed

lemma analyzePage_loop_effect:
  assumes \<open>attempt < maxRetries\<close> \<open>analyzePage_loop e sid n attempt delay st = (r, st')\<close>
  shows \<open>extendsBy (pageEvent sid n) st st'
         \<and> ((r = Inr () \<and> completesPage n st st') \<or> ((\<exists>err. r = Inl err) \<and> sameMaps st st'))\<close>
  using assms
proof (induction \<open>maxRetries - attempt\<close> arbitrary: attempt delay st)
  case 0
  then show ?case by simp
next
  case (Suc k)
  note lt = \<open>attempt < maxRetries\<close> and run = \<open>analyzePage_loop e sid n attempt delay st = (r, st')\<close>
  show ?case
  proof (cases \<open>trim (pageText e n) = []\<close>)
    case True
    from run analyzePage_loop_blank [OF lt True, of sid delay st]
    have r: \<open>r = Inr ()\<close>
      and st': \<open>st' = (setPageAnalyses n (emptyAnalysis n) (toast (SkippingPage n) st))\<lparr>isAnalyzing := False\<rparr>\<close>
      by simp_all
    have \<open>extendsBy (pageEvent sid n) st st'\<close>
      unfolding st' extendsBy_def
      by (simp add: setPageAnalyses_def toast_def emit_def Let_def pageEvent_def pageToast_def storeEventFor_def)
    moreover have \<open>completesPage n st st'\<close>
      unfolding st' completesPage_def
      by (rule exI [of _ \<open>emptyAnalysis n\<close>])
         (simp add: setPageAnalyses_def toast_def emit_def Let_def emptyAnalysis_def)
    ultimately show ?thesis using r by simp
  next
    case False
    obtain r1 st1 where c: \<open>client e n st = (r1, st1)\<close> by (cases \<open>client e n st\<close>)
    note cf = client_frame [OF c]
    show ?thesis
    proof (cases r1)
      case (Inr a)
      let ?st2 = \<open>setPageAnalyses n (completed a) st1\<close>
      let ?st3 = \<open>saveConsolidatedHistoryForPage e sid n (completed a) ?st2\<close>
      from run analyzePage_loop_success [OF lt False, of st a st1 sid delay] c Inr
      have r: \<open>r = Inr ()\<close>
        and st': \<open>st' = (toast (PageAnalyzed n) ?st3)\<lparr>isAnalyzing := False\<rparr>\<close>
        by simp_all
      have \<open>extendsBy (pageEvent sid n) st1 ?st2\<close>
        by (simp add: extendsBy_def setPageAnalyses_def Let_def)
      moreover have \<open>extendsBy (pageEvent sid n) ?st2 ?st3\<close>
        by (rule saveConsolidatedHistoryForPage_extendsBy)
      moreover have \<open>extendsBy (pageEvent sid n) ?st3 st'\<close>
        unfolding st' by (simp add: extendsBy_def toast_def emit_def pageEvent_def pageToast_def storeEventFor_def)
      ultimately have \<open>extendsBy (pageEvent sid n) st st'\<close>
        using cf(1) by (blast intro: extendsBy_trans)
      moreover have \<open>completesPage n st st'\<close>
        unfolding st' completesPage_def
        using cf(2)
        by (intro exI [of _ \<open>completed a\<close>])
           (simp add: toast_def emit_def sameMaps_def
              setPageAnalyses_def Let_def)
      ultimately show ?thesis using r by simp
    next
      case (Inl err)
      show ?thesis
      proof (cases \<open>rateLimited err \<and> attempt < maxRetries - 1\<close>)
        case True
        let ?st2 = \<open>sleep RateLimitBackoff delay (toast (RateLimitRetry n delay) st1)\<close>
        from run analyzePage_loop_retry [OF lt False, of st err st1 sid delay] c Inl True
        have run2: \<open>analyzePage_loop e sid n (Suc attempt) (delay * 2) ?st2 = (r, st')\<close>
          by simp
        have lt2: \<open>Suc attempt < maxRetries\<close> using True by linarith
        have ih: \<open>extendsBy (pageEvent sid n) ?st2 st'
           \<and> ((r = Inr () \<and> completesPage n ?st2 st') \<or> ((\<exists>err. r = Inl err) \<and> sameMaps ?st2 st'))\<close>
          using Suc.hyps(2) by (intro Suc.hyps(1) [OF _ lt2 run2]) simp
        have \<open>extendsBy (pageEvent sid n) st1 ?st2\<close>
          by (simp add: extendsBy_def setTimeout_def toast_def emit_def pageEvent_def pageToast_def storeEventFor_def)
        with cf(1) ih have \<open>extendsBy (pageEvent sid n) st st'\<close>
          by (blast intro: extendsBy_trans)
        moreover have maps2: \<open>pageAnalyses ?st2 = pageAnalyses st\<close> \<open>closureQueued ?st2 = closureQueued st\<close>
          \<open>closureShared ?st2 = closureShared st\<close>
          using cf(2) by (simp_all add: setTimeout_def toast_def emit_def sameMaps_def)
        have \<open>completesPage n ?st2 st' \<Longrightarrow> completesPage n st st'\<close>
          unfolding completesPage_def maps2 .
        moreover have \<open>sameMaps ?st2 st' \<Longrightarrow> sameMaps st st'\<close>
          unfolding sameMaps_def maps2 .
        ultimately show ?thesis using ih by blast
      next
        case False2: False
        from run analyzePage_loop_fail [OF lt False, of st err st1 sid delay] c Inl False2
        have r: \<open>r = Inl err\<close>
          and st': \<open>st' = (toast (PageFailed n (attempt + 1)) st1)\<lparr>isAnalyzing := False\<rparr>\<close>
          by simp_all
        have \<open>extendsBy (pageEvent sid n) st1 st'\<close>
          unfolding st' by (simp add: extendsBy_def toast_def emit_def pageEvent_def pageToast_def storeEventFor_def)
        with cf(1) have \<open>extendsBy (pageEvent sid n) st st'\<close>
          by (blast intro: extendsBy_trans)
        moreover have \<open>sameMaps st st'\<close>
          using cf(2) unfolding st' by (simp add: sameMaps_def toast_def emit_def)
        ultimately show ?thesis using r by blast
      qed
    qed
  qed
qed

section \<open>A blank page\<close>

lemma map_of_mapSet:
  \<open>map_of (mapSet m k v) j = (if j = k then Some v else map_of m j)\<close>
  by (induction m) auto

lemma analyzedIn_mapSet:
  \<open>analyzedIn (mapSet m k v) j = (if j = k then isAnalyzed v else analyzedIn m j)\<close>
  by (simp add: analyzedIn_def mapHas_def mapGet_def map_of_mapSet)

lemma analyzePage_already_analyzed:
  \<open>analyzedIn (pageAnalyses st) n \<Longrightarrow> run_analyzePage e n st = (Inr (), render st)\<close>
  by (simp add: run_analyzePage_def analyzePage_def render_def)

text \<open>
  C6. When the text of a page is blank, \<^verbatim>\<open>analyzePage\<close> returns normally, the only
  effect it adds is the notification that the page is skipped (no call of the Analysis
  Client, no request to the model), and the map holds for the page the empty analysis:
  no key points, no study points, marked as analyzed. A later \<^verbatim>\<open>analyzePage\<close> for
  that page returns at once without any effect.
\<close>

theorem analyzePage_blank_page:
  assumes blank: \<open>trim (pageText e n) = []\<close> and todo: \<open>\<not> analyzedIn (pageAnalyses st) n\<close>
  shows \<open>fst (run_analyzePage e n st) = Inr ()
         \<and> newEvents st (snd (run_analyzePage e n st)) = [Toast (SkippingPage n)]
         \<and> clientCalls (newEvents st (snd (run_analyzePage e n st))) = 0
         \<and> modelCalls (snd (run_analyzePage e n st)) = modelCalls st
         \<and> mapGet (pageAnalyses (snd (run_analyzePage e n st))) n = Some (emptyAnalysis n)
         \<and> keyPoints (emptyAnalysis n) = [] \<and> studyPoints (emptyAnalysis n) = []
         \<and> isAnalyzed (emptyAnalysis n)
         \<and> analyzedIn (pageAnalyses (snd (run_analyzePage e n st))) n
         \<and> run_analyzePage e' n (snd (run_analyzePage e n st))
             = (Inr (), render (snd (run_analyzePage e n st)))\<close>
proof -
  let ?st0 = \<open>(render st)\<lparr>isAnalyzing := True\<rparr>\<close>
  let ?st' = \<open>(setPageAnalyses n (emptyAnalysis n) (toast (SkippingPage n) ?st0))\<lparr>isAnalyzing := False\<rparr>\<close>
  have run: \<open>run_analyzePage e n st = (Inr (), ?st')\<close>
    using todo
      analyzePage_loop_blank [where attempt = 0 and e = e and n = n and delay = 2000 and st = ?st0
        and sid = \<open>studyHistoryId st\<close>, OF _ blank]
    by (simp add: run_analyzePage_def analyzePage_def render_def maxRetries_def)
  have tr: \<open>trace ?st' = trace st @ [Toast (SkippingPage n)]\<close>
    by (simp add: setPageAnalyses_def toast_def emit_def render_def Let_def)
  have pa: \<open>pageAnalyses ?st' = mapSet (pageAnalyses st) n (emptyAnalysis n)\<close>
    by (simp add: setPageAnalyses_def toast_def emit_def render_def Let_def)
  have mc: \<open>modelCalls ?st' = modelCalls st\<close>
    by (simp add: setPageAnalyses_def toast_def emit_def render_def Let_def)
  have empty: \<open>keyPoints (emptyAnalysis n) = [] \<and> studyPoints (emptyAnalysis n) = []
                \<and> isAnalyzed (emptyAnalysis n)\<close>
    by (simp add: emptyAnalysis_def)
  have fin: \<open>analyzedIn (pageAnalyses ?st') n\<close>
    using empty by (simp add: pa analyzedIn_mapSet)
  show ?thesis
    unfolding run fst_conv snd_conv
    using fin analyzePage_already_analyzed [OF fin, of e'] empty
    by (simp add: newEvents_def tr pa mc mapGet_def map_of_mapSet clientCalls_def isClientCall_def)
qed

theorem analyzePage_blank_page_witness:
  \<open>trim (pageText envBlank 1) = [] \<and> \<not> analyzedIn (pageAnalyses (mount envBlank [])) 1
   \<and> fst (run_analyzePage envBlank 1 (mount envBlank [])) = Inr ()
   \<and> newEvents (mount envBlank []) (snd (run_analyzePage envBlank 1 (mount envBlank [])))
       = [Toast (SkippingPage 1)]
   \<and> analyzedIn (pageAnalyses (snd (run_analyzePage envBlank 1 (mount envBlank [])))) 1\<close>
proof -
  have blank: \<open>trim (pageText envBlank 1) = []\<close>
    by (simp add: envBlank_def trim_def isSpace_def nl_def)
  have todo: \<open>\<not> analyzedIn (pageAnalyses (mount envBlank [])) 1\<close>
    by (simp add: envBlank_def mount_def analyzedIn_def mapHas_def orElse_def)
  from analyzePage_blank_page [OF blank todo] blank todo show ?thesis by blast
qed

section \<open>Retry and backoff\<close>

lemma newEvents_append: \<open>trace st' = trace st @ evs \<Longrightarrow> newEvents st st' = evs\<close>
  by (simp add: newEvents_def)

lemma extendsBy_newEvents:
  \<open>extendsBy P st st' \<Longrightarrow> trace st' = trace st @ newEvents st st' \<and> (\<forall>ev \<in> set (newEvents st st'). P ev)\<close>
  by (auto simp: extendsBy_def newEvents_def)

lemma clientCalls_append [simp]: \<open>clientCalls (xs @ ys) = clientCalls xs + clientCalls ys\<close>
  by (simp add: clientCalls_def)

lemma backoffs_append [simp]: \<open>backoffs (xs @ ys) = backoffs xs @ backoffs ys\<close>
  by (simp add: backoffs_def)

lemma clientCalls_none: \<open>\<forall>ev \<in> set evs. \<not> isClientCall ev \<Longrightarrow> clientCalls evs = 0\<close>
  by (simp add: clientCalls_def)

lemma backoffs_none:
  \<open>\<forall>ev \<in> set evs. (\<forall>ms. ev \<noteq> SetTimeout RateLimitBackoff ms) \<Longrightarrow> backoffs evs = []\<close>
  by (induction evs) (auto simp: backoffs_def split: event.splits)

lemma callTimes_no_calls:
  \<open>\<forall>ev \<in> set xs. \<not> isClientCall ev \<Longrightarrow> callTimes t (xs @ ys) = callTimes (t + elapsed xs) ys\<close>
proof (induction xs arbitrary: t)
  case Nil
  then show ?case by (simp add: elapsed_def)
next
  case (Cons x xs)
  then show ?case
    by (cases x) (simp_all add: elapsed_def isClientCall_def add.assoc)
qed

lemma callTimes_no_calls_end: \<open>\<forall>ev \<in> set xs. \<not> isClientCall ev \<Longrightarrow> callTimes t xs = []\<close>
  using callTimes_no_calls [of xs t \<open>[]\<close>] by simp

lemma transport_not_call: \<open>isTransport ev \<Longrightarrow> \<not> isClientCall ev\<close>
  by (auto simp: isTransport_def isClientCall_def split: event.splits)

lemma transport_not_backoff: \<open>isTransport ev \<Longrightarrow> ev \<noteq> SetTimeout RateLimitBackoff ms\<close>
  by (auto simp: isTransport_def)

lemma generateContentWithRetry_loop_cong:
  \<open>modelCalls (st :: 'w world_scheme) = modelCalls (st' :: 'w world_scheme) \<Longrightarrow>
   fst (generateContentWithRetry_loop gen request retries i lastError st)
     = fst (generateContentWithRetry_loop gen request retries i lastError st')
   \<and> modelCalls (snd (generateContentWithRetry_loop gen request retries i lastError st))
     = modelCalls (snd (generateContentWithRetry_loop gen request retries i lastError st'))\<close>
proof (induction \<open>retries - i\<close> arbitrary: i lastError st st')
  case 0
  then show ?case
    by (subst (1 2 3 4) generateContentWithRetry_loop.simps) simp
next
  case (Suc k)
  then have lt: \<open>i < retries\<close> by simp
  show ?case
  proof (cases \<open>gen (modelCalls st) request\<close>)
    case (Inr v)
    with lt Suc.prems show ?thesis
      by (subst (1 2 3 4) generateContentWithRetry_loop.simps)
         (simp add: model_generateContent_def emit_def)
  next
    case (Inl err)
    let ?f = \<open>\<lambda>s. if i < retries - 1
                   then setTimeout TransportBackoff (1000 * (i + 1))
                          (emit (GenerateContent request) (s\<lparr>modelCalls := Suc (modelCalls s)\<rparr>))
                   else emit (GenerateContent request) (s\<lparr>modelCalls := Suc (modelCalls s)\<rparr>)\<close>
    have step: \<open>generateContentWithRetry_loop gen request retries i lastError s
                = generateContentWithRetry_loop gen request retries (Suc i) (Some err) (?f s)\<close>
      if \<open>modelCalls s = modelCalls st\<close> for s :: \<open>'w world_scheme\<close>
      using lt Inl that
      by (subst generateContentWithRetry_loop.simps) (simp add: model_generateContent_def)
    have mc: \<open>modelCalls (?f st) = modelCalls (?f st')\<close>
      using Suc.prems by (simp add: emit_def setTimeout_def)
    have k: \<open>k = retries - Suc i\<close> using Suc.hyps(2) by simp
    show ?thesis
      using Suc.hyps(1) [OF k mc, of \<open>Some err\<close>] Suc.prems
      by (simp add: step [of st] step [of st'])
  qed
qed

lemma client_cong:
  \<open>modelCalls st = modelCalls st' \<Longrightarrow>
   fst (client e n st) = fst (client e n st')
   \<and> modelCalls (snd (client e n st)) = modelCalls (snd (client e n st'))\<close>
proof -
  assume mc: \<open>modelCalls st = modelCalls st'\<close>
  let ?g = \<open>\<lambda>s. generateContentWithRetry_loop (gemini e)
                  (pagePrompt (pageText e n) n (outputLanguage e)) 3 0 None
                  (emit (AnalyzeIndividualPage n) s)\<close>
  have \<open>modelCalls (emit (AnalyzeIndividualPage n) st) = modelCalls (emit (AnalyzeIndividualPage n) st')\<close>
    using mc by (simp add: emit_def)
  from generateContentWithRetry_loop_cong [OF this]
  have eq: \<open>fst (?g st) = fst (?g st')\<close> \<open>modelCalls (snd (?g st)) = modelCalls (snd (?g st'))\<close>
    by blast+
  obtain r s1 where g: \<open>?g st = (r, s1)\<close> by (cases \<open>?g st\<close>)
  obtain r' s1' where g': \<open>?g st' = (r', s1')\<close> by (cases \<open>?g st'\<close>)
  from eq g g' have \<open>r' = r\<close> \<open>modelCalls s1 = modelCalls s1'\<close> by simp_all
  then show ?thesis
    by (cases r)
       (simp_all add: client_def analyzeIndividualPage_def generateContentWithRetry_def g g')
qed

lemma client_trace:
  assumes \<open>client e n st = (r1, st1)\<close>
  shows \<open>\<exists>evs. trace st1 = trace st @ AnalyzeIndividualPage n # evs \<and> (\<forall>ev \<in> set evs. isTransport ev)\<close>
    and \<open>clientCalls (trace st1) = clientCalls (trace st) + 1\<close>
    and \<open>backoffs (trace st1) = backoffs (trace st)\<close>
proof -
  from client_world [of e n st] assms obtain k evs where
    st1: \<open>st1 = st\<lparr>modelCalls := modelCalls st + k, trace := trace st @ AnalyzeIndividualPage n # evs,
                   closureMap := closureQueued st\<rparr>\<close>
    and tr: \<open>\<forall>ev \<in> set evs. isTransport ev\<close>
    by auto
  show \<open>\<exists>evs. trace st1 = trace st @ AnalyzeIndividualPage n # evs \<and> (\<forall>ev \<in> set evs. isTransport ev)\<close>
    using st1 tr by auto
  have \<open>clientCalls evs = 0\<close>
    using tr by (intro clientCalls_none) (auto dest: transport_not_call)
  then show \<open>clientCalls (trace st1) = clientCalls (trace st) + 1\<close>
    by (simp add: st1 clientCalls_def isClientCall_def)
  have \<open>backoffs evs = []\<close>
    using tr by (intro backoffs_none) (auto dest: transport_not_backoff)
  then show \<open>backoffs (trace st1) = backoffs (trace st)\<close>
    using backoffs_append [of \<open>[AnalyzeIndividualPage n]\<close> evs]
    by (simp add: st1) (simp add: backoffs_def)
qed

lemma doubling_list:
  \<open>1 \<le> m \<Longrightarrow> (d :: nat) # map (\<lambda>j. (d * 2) * 2 ^ j) [0..<m - 1] = map (\<lambda>j. d * 2 ^ j) [0..<m :: nat]\<close>
proof -
  assume \<open>1 \<le> m\<close>
  then obtain m' where m: \<open>m = Suc m'\<close> by (cases m) auto
  show ?thesis unfolding m by (simp add: map_upt_Suc mult.assoc del: upt_Suc)
qed

lemma store_not_call: \<open>isStoreCall ev \<Longrightarrow> \<not> isClientCall ev\<close>
  by (cases ev) (simp_all add: isStoreCall_def isCreate_def isUpdate_def isClientCall_def)

lemma store_not_timer: \<open>isStoreCall ev \<Longrightarrow> ev \<noteq> SetTimeout site ms\<close>
  by (cases ev) (simp_all add: isStoreCall_def isCreate_def isUpdate_def)

lemma saveConsolidatedHistoryForPage_quiet:
  \<open>\<exists>evs. trace (saveConsolidatedHistoryForPage e sid n a st) = trace st @ evs
         \<and> clientCalls evs = 0 \<and> backoffs evs = [] \<and> (\<forall>ev \<in> set evs. \<not> isClientCall ev)\<close>
proof -
  from saveConsolidatedHistoryForPage_trace [of e sid n a st] obtain evs where
    tr: \<open>trace (saveConsolidatedHistoryForPage e sid n a st) = trace st @ evs\<close>
    and ev: \<open>\<forall>ev \<in> set evs. (isStoreCall ev \<and> storeEventFor sid ev) \<or> ev = Toast SaveProgressFailed\<close>
    by blast
  have nc: \<open>\<not> isClientCall ev\<close> if \<open>ev \<in> set evs\<close> for ev
  proof -
    from ev that have \<open>isStoreCall ev \<or> ev = Toast SaveProgressFailed\<close> by blast
    then show ?thesis by (auto dest: store_not_call simp: isClientCall_def)
  qed
  have nb: \<open>ev \<noteq> SetTimeout RateLimitBackoff ms\<close> if \<open>ev \<in> set evs\<close> for ev ms
  proof -
    from ev that have \<open>isStoreCall ev \<or> ev = Toast SaveProgressFailed\<close> by blast
    then show ?thesis by (auto dest: store_not_timer)
  qed
  have \<open>clientCalls evs = 0\<close> using nc by (intro clientCalls_none) blast
  moreover have \<open>backoffs evs = []\<close> using nb by (intro backoffs_none) blast
  ultimately show ?thesis using tr nc by blast
qed

lemma analyzePage_loop_calls:
  assumes \<open>attempt < maxRetries\<close> \<open>trim (pageText e n) \<noteq> []\<close>
    and \<open>analyzePage_loop e sid n attempt delay st = (r, st')\<close>
  shows \<open>trace st' = trace st @ newEvents st st'
         \<and> 1 \<le> clientCalls (newEvents st st')
         \<and> clientCalls (newEvents st st') \<le> maxRetries - attempt
         \<and> backoffs (newEvents st st')
             = map (\<lambda>j. delay * 2 ^ j) [0..<clientCalls (newEvents st st') - 1]
         \<and> (clientCalls (newEvents st st') = 1
             \<or> (\<exists>err. fst (client e n st) = Inl err \<and> rateLimited err \<and> attempt < maxRetries - 1))
         \<and> (\<forall>err. fst (client e n st) = Inl err \<longrightarrow> rateLimited err \<longrightarrow> attempt < maxRetries - 1
                \<longrightarrow> 2 \<le> clientCalls (newEvents st st'))\<close>
  using assms
proof (induction \<open>maxRetries - attempt\<close> arbitrary: attempt delay st)
  case 0
  then show ?case by simp
next
  case (Suc k)
  note lt = \<open>attempt < maxRetries\<close> and nonblank = \<open>trim (pageText e n) \<noteq> []\<close>
    and run = \<open>analyzePage_loop e sid n attempt delay st = (r, st')\<close>
  obtain r1 st1 where c: \<open>client e n st = (r1, st1)\<close> by (cases \<open>client e n st\<close>)
  from client_trace(1) [OF c] obtain tev where
    st1: \<open>trace st1 = trace st @ AnalyzeIndividualPage n # tev\<close>
    and tev: \<open>\<forall>ev \<in> set tev. isTransport ev\<close>
    by blast
  have tev0: \<open>clientCalls tev = 0\<close> \<open>backoffs tev = []\<close>
    using tev by (auto intro!: clientCalls_none backoffs_none dest: transport_not_call transport_not_backoff)
  have call1: \<open>clientCalls (AnalyzeIndividualPage n # tev) = 1\<close>
    \<open>backoffs (AnalyzeIndividualPage n # tev) = []\<close>
    using tev0 by (simp_all add: clientCalls_def backoffs_def isClientCall_def)
  show ?case
  proof (cases r1)
    case (Inr a)
    let ?st2 = \<open>setPageAnalyses n (completed a) st1\<close>
    let ?st3 = \<open>saveConsolidatedHistoryForPage e sid n (completed a) ?st2\<close>
    from run analyzePage_loop_success [OF lt nonblank, of st a st1 sid delay] c Inr
    have st': \<open>st' = (toast (PageAnalyzed n) ?st3)\<lparr>isAnalyzing := False\<rparr>\<close>
      by simp
    from saveConsolidatedHistoryForPage_quiet [of e sid n \<open>completed a\<close> ?st2] obtain sev where
      st3: \<open>trace ?st3 = trace ?st2 @ sev\<close> and sev: \<open>clientCalls sev = 0\<close> \<open>backoffs sev = []\<close>
      by blast
    have t2: \<open>trace ?st2 = trace st1\<close>
      by (simp add: setPageAnalyses_def Let_def)
    have tr: \<open>trace st' = trace st @ ((AnalyzeIndividualPage n # tev) @ sev @ [Toast (PageAnalyzed n)])\<close>
      unfolding st' by (simp add: toast_def emit_def st3 t2 st1)
    have ne: \<open>newEvents st st' = (AnalyzeIndividualPage n # tev) @ sev @ [Toast (PageAnalyzed n)]\<close>
      using tr by (rule newEvents_append)
    have cc: \<open>clientCalls (newEvents st st') = 1\<close>
      unfolding ne clientCalls_append call1 sev by (simp add: clientCalls_def isClientCall_def)
    have bo: \<open>backoffs (newEvents st st') = []\<close>
      unfolding ne backoffs_append call1 sev by (simp add: backoffs_def)
    show ?thesis using tr ne cc bo lt c Inr by simp
  next
    case (Inl err)
    show ?thesis
    proof (cases \<open>rateLimited err \<and> attempt < maxRetries - 1\<close>)
      case True
      let ?st2 = \<open>sleep RateLimitBackoff delay (toast (RateLimitRetry n delay) st1)\<close>
      from run analyzePage_loop_retry [OF lt nonblank, of st err st1 sid delay] c Inl True
      have run2: \<open>analyzePage_loop e sid n (Suc attempt) (delay * 2) ?st2 = (r, st')\<close>
        by simp
      have lt2: \<open>Suc attempt < maxRetries\<close> using True by linarith
      have k: \<open>k = maxRetries - Suc attempt\<close> using Suc.hyps(2) by simp
      from Suc.hyps(1) [OF k lt2 nonblank run2]
      have ih: \<open>trace st' = trace ?st2 @ newEvents ?st2 st'\<close>
        \<open>1 \<le> clientCalls (newEvents ?st2 st')\<close>
        \<open>clientCalls (newEvents ?st2 st') \<le> maxRetries - Suc attempt\<close>
        \<open>backoffs (newEvents ?st2 st')
           = map (\<lambda>j. (delay * 2) * 2 ^ j) [0..<clientCalls (newEvents ?st2 st') - 1]\<close>
        by blast+
      let ?E2 = \<open>newEvents ?st2 st'\<close>
      have st2: \<open>trace ?st2 = trace st @ ((AnalyzeIndividualPage n # tev)
                   @ [Toast (RateLimitRetry n delay), SetTimeout RateLimitBackoff delay])\<close>
        by (simp add: setTimeout_def toast_def emit_def st1)
      have tr: \<open>trace st' = trace st @ ((AnalyzeIndividualPage n # tev)
                   @ [Toast (RateLimitRetry n delay), SetTimeout RateLimitBackoff delay] @ ?E2)\<close>
        using ih(1) unfolding st2 by simp
      have ne: \<open>newEvents st st' = (AnalyzeIndividualPage n # tev)
                   @ [Toast (RateLimitRetry n delay), SetTimeout RateLimitBackoff delay] @ ?E2\<close>
        using tr by (rule newEvents_append)
      have cc: \<open>clientCalls (newEvents st st') = 1 + clientCalls ?E2\<close>
        unfolding ne clientCalls_append call1 by (simp add: clientCalls_def isClientCall_def)
      have bo: \<open>backoffs (newEvents st st') = delay # backoffs ?E2\<close>
        unfolding ne backoffs_append call1 by (simp add: backoffs_def)
      have \<open>backoffs (newEvents st st') = map (\<lambda>j. delay * 2 ^ j) [0..<clientCalls (newEvents st st') - 1]\<close>
        unfolding bo cc ih(4) using doubling_list [OF ih(2), of delay] by simp
      then show ?thesis using tr ne cc ih(2,3) lt2 c Inl True by simp
    next
      case False
      from run analyzePage_loop_fail [OF lt nonblank, of st err st1 sid delay] c Inl False
      have st': \<open>st' = (toast (PageFailed n (attempt + 1)) st1)\<lparr>isAnalyzing := False\<rparr>\<close>
        by simp
      have tr: \<open>trace st' = trace st @ ((AnalyzeIndividualPage n # tev) @ [Toast (PageFailed n (attempt + 1))])\<close>
        unfolding st' by (simp add: toast_def emit_def st1)
      have ne: \<open>newEvents st st' = (AnalyzeIndividualPage n # tev) @ [Toast (PageFailed n (attempt + 1))]\<close>
        using tr by (rule newEvents_append)
      have cc: \<open>clientCalls (newEvents st st') = 1\<close>
        unfolding ne clientCalls_append call1 by (simp add: clientCalls_def isClientCall_def)
      have bo: \<open>backoffs (newEvents st st') = []\<close>
        unfolding ne backoffs_append call1 by (simp add: backoffs_def)
      show ?thesis using tr ne cc bo lt c Inl False by auto
    qed
  qed
qed

lemma run_analyzePage_unfold:
  \<open>\<not> analyzedIn (pageAnalyses st) n \<Longrightarrow>
   run_analyzePage e n st
     = analyzePage_loop e (studyHistoryId st) n 0 2000 ((render st)\<lparr>isAnalyzing := True\<rparr>)\<close>
  by (simp add: run_analyzePage_def analyzePage_def render_def)

text \<open>
  C3. In the loop of \<^verbatim>\<open>analyzePage\<close>, at any attempt, for a page with text: when the call
  of the Analysis Client fails with an error that is not the rate limit signal (its
  message does not contain 429), the loop throws that error at once, with the failure
  notification as its only further effect, so the attempt's call is the only one. The
  loop makes a further call only if the call failed with the rate limit signal and an
  attempt is left, and in that case it does make one.
\<close>

theorem analyzePage_retries_only_rate_limited:
  assumes \<open>attempt < maxRetries\<close> and \<open>trim (pageText e n) \<noteq> []\<close>
  shows \<open>(fst (client e n st) = Inl err \<and> \<not> rateLimited err \<longrightarrow>
            analyzePage_loop e sid n attempt delay st
              = (Inl err, (toast (PageFailed n (attempt + 1)) (snd (client e n st)))\<lparr>isAnalyzing := False\<rparr>)
            \<and> clientCalls (newEvents st (snd (analyzePage_loop e sid n attempt delay st))) = 1)
         \<and> (1 < clientCalls (newEvents st (snd (analyzePage_loop e sid n attempt delay st))) \<longrightarrow>
              (\<exists>err'. fst (client e n st) = Inl err' \<and> rateLimited err') \<and> attempt < maxRetries - 1)
         \<and> (fst (client e n st) = Inl err \<and> rateLimited err \<and> attempt < maxRetries - 1 \<longrightarrow>
              2 \<le> clientCalls (newEvents st (snd (analyzePage_loop e sid n attempt delay st))))\<close>
proof -
  obtain r st' where run: \<open>analyzePage_loop e sid n attempt delay st = (r, st')\<close>
    by (cases \<open>analyzePage_loop e sid n attempt delay st\<close>)
  note calls = analyzePage_loop_calls [OF assms run]
  have a: \<open>analyzePage_loop e sid n attempt delay st
              = (Inl err, (toast (PageFailed n (attempt + 1)) (snd (client e n st)))\<lparr>isAnalyzing := False\<rparr>)
           \<and> clientCalls (newEvents st st') = 1\<close>
    if f: \<open>fst (client e n st) = Inl err\<close> and nrl: \<open>\<not> rateLimited err\<close>
  proof -
    from f have c: \<open>client e n st = (Inl err, snd (client e n st))\<close>
      by (metis prod.collapse)
    from analyzePage_loop_fail [OF assms c] nrl
    have \<open>analyzePage_loop e sid n attempt delay st
            = (Inl err, (toast (PageFailed n (attempt + 1)) (snd (client e n st)))\<lparr>isAnalyzing := False\<rparr>)\<close>
      by simp
    moreover have \<open>clientCalls (newEvents st st') = 1\<close>
      using calls f nrl by auto
    ultimately show ?thesis by simp
  qed
  show ?thesis
    unfolding run snd_conv using a calls by (auto simp: run)
qed

theorem analyzePage_retries_only_rate_limited_witness:
  \<open>0 < maxRetries \<and> trim (pageText envFail 1) \<noteq> []
   \<and> fst (client envFail 1 (mount envFail []))
       = Inl (Error ''Gemini API call failed after 3 attempts. Last error: HTTP 500'')
   \<and> \<not> rateLimited (Error ''Gemini API call failed after 3 attempts. Last error: HTTP 500'')
   \<and> fst (analyzePage_loop envFail None 1 0 2000 (mount envFail []))
       = Inl (Error ''Gemini API call failed after 3 attempts. Last error: HTTP 500'')
   \<and> clientCalls (newEvents (mount envFail [])
                     (snd (analyzePage_loop envFail None 1 0 2000 (mount envFail [])))) = 1\<close>
proof -
  let ?err = \<open>Error ''Gemini API call failed after 3 attempts. Last error: HTTP 500''\<close>
  have h1: \<open>0 < maxRetries\<close> by (simp add: maxRetries_def)
  have h2: \<open>trim (pageText envFail 1) \<noteq> []\<close> by code_simp
  have h3: \<open>fst (client envFail 1 (mount envFail [])) = Inl ?err\<close> by code_simp
  have h4: \<open>\<not> rateLimited ?err\<close> by code_simp
  from analyzePage_retries_only_rate_limited [OF h1 h2, of \<open>mount envFail []\<close> ?err None 2000] h3 h4
  have \<open>analyzePage_loop envFail None 1 0 2000 (mount envFail [])
          = (Inl ?err, (toast (PageFailed 1 (0 + 1)) (snd (client envFail 1 (mount envFail []))))
                         \<lparr>isAnalyzing := False\<rparr>)
        \<and> clientCalls (newEvents (mount envFail [])
                          (snd (analyzePage_loop envFail None 1 0 2000 (mount envFail [])))) = 1\<close>
    by blast
  then have \<open>fst (analyzePage_loop envFail None 1 0 2000 (mount envFail [])) = Inl ?err
        \<and> clientCalls (newEvents (mount envFail [])
                        (snd (analyzePage_loop envFail None 1 0 2000 (mount envFail [])))) = 1\<close>
    by (metis fst_conv)
  then show ?thesis using h1 h2 h3 h4 by blast
qed

lemma trace_toast: \<open>trace (toast t st) = trace st @ [Toast t]\<close>
  by (simp add: toast_def emit_def)

lemma trace_setTimeout: \<open>trace (setTimeout site ms st) = trace st @ [SetTimeout site ms]\<close>
  by (simp add: setTimeout_def emit_def)

lemma callTimes_scenario:
  assumes \<open>\<forall>ev \<in> set tev1. isTransport ev\<close> \<open>\<forall>ev \<in> set rest. \<not> isClientCall ev\<close>
  shows \<open>callTimes t ((AnalyzeIndividualPage n # tev1)
            @ [Toast (RateLimitRetry n d), SetTimeout RateLimitBackoff d]
            @ (AnalyzeIndividualPage n # rest))
         = [t, t + elapsed tev1 + d]\<close>
proof -
  have nc: \<open>\<forall>ev \<in> set tev1. \<not> isClientCall ev\<close>
    using assms(1) by (auto dest: transport_not_call)
  have \<open>callTimes t ((AnalyzeIndividualPage n # tev1)
            @ [Toast (RateLimitRetry n d), SetTimeout RateLimitBackoff d]
            @ (AnalyzeIndividualPage n # rest))
        = t # callTimes t (tev1 @ ([Toast (RateLimitRetry n d), SetTimeout RateLimitBackoff d]
                                   @ (AnalyzeIndividualPage n # rest)))\<close>
    by simp
  also have \<open>\<dots> = t # callTimes (t + elapsed tev1)
                        ([Toast (RateLimitRetry n d), SetTimeout RateLimitBackoff d]
                         @ (AnalyzeIndividualPage n # rest))\<close>
    by (simp only: callTimes_no_calls [OF nc])
  also have \<open>\<dots> = [t, t + elapsed tev1 + d]\<close>
    using callTimes_no_calls_end [OF assms(2)] by simp
  finally show ?thesis .
qed

text \<open>
  C5. The backoff starts at 2000 ms and doubles: the delays the loop of \<^verbatim>\<open>analyzePage\<close>
  waits are 2000, 4000, one before each call of the Analysis Client after the first, and
  there are at most three calls. When the first call for a page fails with the rate limit
  signal and the second succeeds, \<^verbatim>\<open>analyzePage\<close> returns normally with the page
  analyzed, after exactly two calls of the client, the second issued at least 2000 ms
  after the first.
\<close>

theorem analyzePage_backoff:
  \<open>backoffs (newEvents st (snd (run_analyzePage e n st)))
     = map (\<lambda>j. 2000 * 2 ^ j) [0..<clientCalls (newEvents st (snd (run_analyzePage e n st))) - 1]
   \<and> clientCalls (newEvents st (snd (run_analyzePage e n st))) \<le> 3
   \<and> (\<not> analyzedIn (pageAnalyses st) n \<and> trim (pageText e n) \<noteq> []
       \<and> fst (client e n st) = Inl err \<and> rateLimited err
       \<and> fst (client e n (snd (client e n st))) = Inr a \<longrightarrow>
         fst (run_analyzePage e n st) = Inr ()
         \<and> mapGet (pageAnalyses (snd (run_analyzePage e n st))) n = Some (completed a)
         \<and> analyzedIn (pageAnalyses (snd (run_analyzePage e n st))) n
         \<and> clientCalls (newEvents st (snd (run_analyzePage e n st))) = 2
         \<and> backoffs (newEvents st (snd (run_analyzePage e n st))) = [2000]
         \<and> length (callTimes 0 (newEvents st (snd (run_analyzePage e n st)))) = 2
         \<and> callTimes 0 (newEvents st (snd (run_analyzePage e n st))) ! 0 + 2000
             \<le> callTimes 0 (newEvents st (snd (run_analyzePage e n st))) ! 1)\<close>
proof (intro conjI impI)
  let ?st0 = \<open>(render st)\<lparr>isAnalyzing := True\<rparr>\<close>
  let ?sid = \<open>studyHistoryId st\<close>
  have tr0: \<open>trace ?st0 = trace st\<close> by (simp add: render_def)
  have ne0: \<open>newEvents st s = newEvents ?st0 s\<close> for s :: component
    by (simp add: newEvents_def tr0)
  have general:
    \<open>backoffs (newEvents st (snd (run_analyzePage e n st)))
       = map (\<lambda>j. 2000 * 2 ^ j) [0..<clientCalls (newEvents st (snd (run_analyzePage e n st))) - 1]
     \<and> clientCalls (newEvents st (snd (run_analyzePage e n st))) \<le> 3\<close>
  proof (cases \<open>analyzedIn (pageAnalyses st) n\<close>)
    case True
    then show ?thesis
      by (simp add: analyzePage_already_analyzed newEvents_def render_def backoffs_def clientCalls_def)
  next
    case False
    note unf = run_analyzePage_unfold [OF False, of e]
    show ?thesis
    proof (cases \<open>trim (pageText e n) = []\<close>)
      case True
      have \<open>newEvents st (snd (run_analyzePage e n st)) = [Toast (SkippingPage n)]\<close>
        using analyzePage_blank_page [OF True False] by blast
      then show ?thesis by (simp add: backoffs_def clientCalls_def isClientCall_def)
    next
      case nonblank: False
      obtain r st' where run: \<open>analyzePage_loop e ?sid n 0 2000 ?st0 = (r, st')\<close>
        by (cases \<open>analyzePage_loop e ?sid n 0 2000 ?st0\<close>)
      have lt: \<open>0 < maxRetries\<close> by (simp add: maxRetries_def)
      from analyzePage_loop_calls [OF lt nonblank run]
      show ?thesis unfolding unf run snd_conv ne0 by (simp add: maxRetries_def)
    qed
  qed
  from general show
    \<open>backoffs (newEvents st (snd (run_analyzePage e n st)))
       = map (\<lambda>j. 2000 * 2 ^ j) [0..<clientCalls (newEvents st (snd (run_analyzePage e n st))) - 1]\<close>
    and \<open>clientCalls (newEvents st (snd (run_analyzePage e n st))) \<le> 3\<close>
    by blast+
  assume hyp: \<open>\<not> analyzedIn (pageAnalyses st) n \<and> trim (pageText e n) \<noteq> []
       \<and> fst (client e n st) = Inl err \<and> rateLimited err
       \<and> fst (client e n (snd (client e n st))) = Inr a\<close>
  then have todo: \<open>\<not> analyzedIn (pageAnalyses st) n\<close> and nonblank: \<open>trim (pageText e n) \<noteq> []\<close>
    and first: \<open>fst (client e n st) = Inl err\<close> and rl: \<open>rateLimited err\<close>
    and second: \<open>fst (client e n (snd (client e n st))) = Inr a\<close>
    by blast+
  have mc0: \<open>modelCalls ?st0 = modelCalls st\<close> by (simp add: render_def)
  obtain st1 where c1: \<open>client e n ?st0 = (Inl err, st1)\<close>
    using client_cong [OF mc0, of e n] first by (metis prod.collapse)
  have mc1: \<open>modelCalls st1 = modelCalls (snd (client e n st))\<close>
    using client_cong [OF mc0, of e n] c1 by simp
  let ?st2 = \<open>sleep RateLimitBackoff 2000 (toast (RateLimitRetry n 2000) st1)\<close>
  have mc2: \<open>modelCalls ?st2 = modelCalls (snd (client e n st))\<close>
    using mc1 by (simp add: setTimeout_def toast_def emit_def)
  obtain st3 where c2: \<open>client e n ?st2 = (Inr a, st3)\<close>
    using client_cong [OF mc2, of e n] second by (metis prod.collapse)
  let ?st4 = \<open>setPageAnalyses n (completed a) st3\<close>
  let ?st5 = \<open>saveConsolidatedHistoryForPage e ?sid n (completed a) ?st4\<close>
  let ?st' = \<open>(toast (PageAnalyzed n) ?st5)\<lparr>isAnalyzing := False\<rparr>\<close>
  have run: \<open>run_analyzePage e n st = (Inr (), ?st')\<close>
    unfolding run_analyzePage_unfold [OF todo]
    using analyzePage_loop_retry [OF _ nonblank c1 rl, where attempt = 0 and sid = ?sid and delay = 2000]
      analyzePage_loop_success [OF _ nonblank c2, where attempt = 1 and sid = ?sid and delay = 4000]
    by (simp add: maxRetries_def)
  from client_trace(1) [OF c1] obtain tev1 where
    st1: \<open>trace st1 = trace ?st0 @ AnalyzeIndividualPage n # tev1\<close>
    and tev1: \<open>\<forall>ev \<in> set tev1. isTransport ev\<close>
    by blast
  from client_trace(1) [OF c2] obtain tev2 where
    st3: \<open>trace st3 = trace ?st2 @ AnalyzeIndividualPage n # tev2\<close>
    and tev2: \<open>\<forall>ev \<in> set tev2. isTransport ev\<close>
    by blast
  from saveConsolidatedHistoryForPage_quiet [of e ?sid n \<open>completed a\<close> ?st4] obtain sev where
    st5: \<open>trace ?st5 = trace ?st4 @ sev\<close> and sev: \<open>\<forall>ev \<in> set sev. \<not> isClientCall ev\<close>
    by blast
  have t4: \<open>trace ?st4 = trace st3\<close> by (simp add: setPageAnalyses_def Let_def)
  have t2: \<open>trace ?st2 = trace st1 @ [Toast (RateLimitRetry n 2000), SetTimeout RateLimitBackoff 2000]\<close>
    by (simp add: setTimeout_def toast_def emit_def)
  let ?rest = \<open>tev2 @ sev @ [Toast (PageAnalyzed n)]\<close>
  have tr: \<open>trace ?st' = trace st @ ((AnalyzeIndividualPage n # tev1)
              @ [Toast (RateLimitRetry n 2000), SetTimeout RateLimitBackoff 2000]
              @ (AnalyzeIndividualPage n # ?rest))\<close>
    by (simp add: trace_toast trace_setTimeout st5 t4 st3 st1 tr0)
  have ne: \<open>newEvents st ?st' = (AnalyzeIndividualPage n # tev1)
              @ [Toast (RateLimitRetry n 2000), SetTimeout RateLimitBackoff 2000]
              @ (AnalyzeIndividualPage n # ?rest)\<close>
    using tr by (rule newEvents_append)
  have nc2: \<open>\<forall>ev \<in> set tev2. \<not> isClientCall ev\<close>
    using tev2 by (auto dest: transport_not_call)
  have nc3: \<open>\<not> isClientCall (Toast (PageAnalyzed n))\<close>
    by (simp add: isClientCall_def)
  have rest: \<open>\<forall>ev \<in> set ?rest. \<not> isClientCall ev\<close>
    using nc2 sev nc3 by auto
  have times: \<open>callTimes 0 (newEvents st ?st') = [0, 0 + elapsed tev1 + 2000]\<close>
    unfolding ne by (rule callTimes_scenario [OF tev1 rest])
  have pa: \<open>pageAnalyses ?st' = mapSet (pageAnalyses st3) n (completed a)\<close>
    by (simp add: toast_def emit_def setPageAnalyses_def Let_def)
  have nc1: \<open>\<forall>ev \<in> set tev1. \<not> isClientCall ev\<close>
    using tev1 by (auto dest: transport_not_call)
  have one: \<open>clientCalls (AnalyzeIndividualPage n # evs) = 1 + clientCalls evs\<close> for evs
    by (simp add: clientCalls_def isClientCall_def)
  have zero: \<open>clientCalls [Toast (RateLimitRetry n 2000), SetTimeout RateLimitBackoff 2000] = 0\<close>
    by (simp add: clientCalls_def isClientCall_def)
  have cc: \<open>clientCalls (newEvents st ?st') = 2\<close>
    unfolding ne
    using clientCalls_none [OF nc1] clientCalls_none [OF nc2] clientCalls_none [OF sev]
    by (simp add: one zero) (simp add: clientCalls_def isClientCall_def)
  show \<open>fst (run_analyzePage e n st) = Inr ()\<close> by (simp add: run)
  show \<open>mapGet (pageAnalyses (snd (run_analyzePage e n st))) n = Some (completed a)\<close>
    unfolding run snd_conv pa by (simp add: mapGet_def map_of_mapSet)
  show \<open>analyzedIn (pageAnalyses (snd (run_analyzePage e n st))) n\<close>
    unfolding run snd_conv pa by (simp add: analyzedIn_mapSet)
  show cc': \<open>clientCalls (newEvents st (snd (run_analyzePage e n st))) = 2\<close>
    unfolding run snd_conv by (rule cc)
  show \<open>backoffs (newEvents st (snd (run_analyzePage e n st))) = [2000]\<close>
    using general unfolding cc' by simp
  show \<open>length (callTimes 0 (newEvents st (snd (run_analyzePage e n st)))) = 2\<close>
    unfolding run snd_conv times by simp
  show \<open>callTimes 0 (newEvents st (snd (run_analyzePage e n st))) ! 0 + 2000
          \<le> callTimes 0 (newEvents st (snd (run_analyzePage e n st))) ! 1\<close>
    unfolding run snd_conv times by simp
qed

theorem analyzePage_backoff_witness:
  \<open>\<not> analyzedIn (pageAnalyses (mount envRateLimited [])) 1
   \<and> trim (pageText envRateLimited 1) \<noteq> []
   \<and> fst (client envRateLimited 1 (mount envRateLimited []))
       = Inl (Error ''Gemini API call failed after 3 attempts. Last error: HTTP 429 Too Many Requests'')
   \<and> rateLimited (Error ''Gemini API call failed after 3 attempts. Last error: HTTP 429 Too Many Requests'')
   \<and> fst (client envRateLimited 1 (snd (client envRateLimited 1 (mount envRateLimited []))))
       = Inr \<lparr>pageNumber = 1, keyPoints = [''k''], studyPoints = [], summary = ''s'',
              tnpscRelevance = [], tnpscCategories = Some []\<rparr>
   \<and> fst (run_analyzePage envRateLimited 1 (mount envRateLimited [])) = Inr ()
   \<and> clientCalls (newEvents (mount envRateLimited [])
                     (snd (run_analyzePage envRateLimited 1 (mount envRateLimited [])))) = 2
   \<and> backoffs (newEvents (mount envRateLimited [])
                  (snd (run_analyzePage envRateLimited 1 (mount envRateLimited [])))) = [2000]\<close>
proof -
  let ?err = \<open>Error ''Gemini API call failed after 3 attempts. Last error: HTTP 429 Too Many Requests''\<close>
  let ?a = \<open>\<lparr>pageNumber = 1, keyPoints = [''k''], studyPoints = [], summary = ''s'',
              tnpscRelevance = [], tnpscCategories = Some []\<rparr>\<close>
  have h1: \<open>\<not> analyzedIn (pageAnalyses (mount envRateLimited [])) 1\<close> by code_simp
  have h2: \<open>trim (pageText envRateLimited 1) \<noteq> []\<close> by code_simp
  have h3: \<open>fst (client envRateLimited 1 (mount envRateLimited [])) = Inl ?err\<close> by code_simp
  have h4: \<open>rateLimited ?err\<close> by code_simp
  have h5: \<open>fst (client envRateLimited 1 (snd (client envRateLimited 1 (mount envRateLimited [])))) = Inr ?a\<close>
    by code_simp
  from analyzePage_backoff [of \<open>mount envRateLimited []\<close> envRateLimited 1 ?err ?a] h1 h2 h3 h4 h5
  have \<open>fst (run_analyzePage envRateLimited 1 (mount envRateLimited [])) = Inr ()
        \<and> clientCalls (newEvents (mount envRateLimited [])
                          (snd (run_analyzePage envRateLimited 1 (mount envRateLimited [])))) = 2
        \<and> backoffs (newEvents (mount envRateLimited [])
                       (snd (run_analyzePage envRateLimited 1 (mount envRateLimited [])))) = [2000]\<close>
    by blast
  then show ?thesis using h1 h2 h3 h4 h5 by blast
qed

section \<open>Analysis of all pages\<close>


lemma polite_unfinished:
  \<open>\<forall>ev \<in> set xs. finishedPage ev = None \<Longrightarrow> polite N xs\<close>
  by (induction xs) auto

lemma polite_finished_last:
  \<open>\<forall>ev \<in> set xs. finishedPage ev = None \<Longrightarrow> finishedPage t = Some i \<Longrightarrow>
   polite N (xs @ t # ys) = ((i < N \<longrightarrow> (case ys of [] \<Rightarrow> False | next # rest \<Rightarrow> next = SetTimeout PoliteDelay 1000))
                             \<and> polite N ys)\<close>
  by (induction xs) auto

lemma clientPages_append [simp]: \<open>clientPages (xs @ ys) = clientPages xs @ clientPages ys\<close>
  by (simp add: clientPages_def)

lemma clientPages_set:
  \<open>p \<in> set (clientPages tr) \<longleftrightarrow> AnalyzeIndividualPage p \<in> set tr\<close>
  by (induction tr) (auto simp: clientPages_def split: event.splits)

lemma pageEvent_batchEvent:
  \<open>pageEvent sid n ev \<Longrightarrow> lo \<le> n \<Longrightarrow> n \<le> hi \<Longrightarrow> batchEvent sid lo hi ev\<close>
  by (cases ev) (auto simp: pageEvent_def batchEvent_def pageToast_def split: toast.splits)

lemma batchEvent_mono:
  \<open>batchEvent sid lo hi ev \<Longrightarrow> lo' \<le> lo \<Longrightarrow> hi \<le> hi' \<Longrightarrow> batchEvent sid lo' hi' ev\<close>
  by (cases ev) (auto simp: batchEvent_def split: toast.splits)

lemma transport_unfinished: \<open>isTransport ev \<Longrightarrow> finishedPage ev = None\<close>
  by (cases ev) (simp_all add: isTransport_def)

lemma store_unfinished:
  \<open>(isStoreCall ev \<and> storeEventFor sid ev) \<or> ev = Toast SaveProgressFailed \<Longrightarrow> finishedPage ev = None\<close>
  by (cases ev) (auto simp: isStoreCall_def isCreate_def isUpdate_def)

lemma analyzePage_loop_finish:
  assumes \<open>attempt < maxRetries\<close> \<open>analyzePage_loop e sid n attempt delay st = (r, st')\<close>
  shows \<open>(r = Inr () \<longrightarrow>
            (\<exists>evs t. newEvents st st' = evs @ [t] \<and> finishedPage t = Some n
                    \<and> (\<forall>ev \<in> set evs. finishedPage ev = None)))
         \<and> ((\<exists>err. r = Inl err) \<longrightarrow>
              (\<forall>ev \<in> set (newEvents st st'). finishedPage ev = None)
              \<and> (\<exists>a. Toast (PageFailed n a) \<in> set (newEvents st st')))\<close>
  using assms
proof (induction \<open>maxRetries - attempt\<close> arbitrary: attempt delay st)
  case 0
  then show ?case by simp
next
  case (Suc k)
  note lt = \<open>attempt < maxRetries\<close> and run = \<open>analyzePage_loop e sid n attempt delay st = (r, st')\<close>
  show ?case
  proof (cases \<open>trim (pageText e n) = []\<close>)
    case True
    from run analyzePage_loop_blank [OF lt True, of sid delay st]
    have r: \<open>r = Inr ()\<close>
      and st': \<open>st' = (setPageAnalyses n (emptyAnalysis n) (toast (SkippingPage n) st))\<lparr>isAnalyzing := False\<rparr>\<close>
      by simp_all
    have \<open>trace st' = trace st @ [Toast (SkippingPage n)]\<close>
      unfolding st' by (simp add: setPageAnalyses_def Let_def trace_toast)
    then have \<open>newEvents st st' = [] @ [Toast (SkippingPage n)]\<close>
      by (simp add: newEvents_append)
    then show ?thesis using r by fastforce
  next
    case nonblank: False
    obtain r1 st1 where c: \<open>client e n st = (r1, st1)\<close> by (cases \<open>client e n st\<close>)
    from client_trace(1) [OF c] obtain tev where
      st1: \<open>trace st1 = trace st @ AnalyzeIndividualPage n # tev\<close>
      and tev: \<open>\<forall>ev \<in> set tev. isTransport ev\<close>
      by blast
    have tevu: \<open>\<forall>ev \<in> set (AnalyzeIndividualPage n # tev). finishedPage ev = None\<close>
      using tev by (auto dest: transport_unfinished)
    show ?thesis
    proof (cases r1)
      case (Inr a)
      let ?st2 = \<open>setPageAnalyses n (completed a) st1\<close>
      let ?st3 = \<open>saveConsolidatedHistoryForPage e sid n (completed a) ?st2\<close>
      from run analyzePage_loop_success [OF lt nonblank, of st a st1 sid delay] c Inr
      have r: \<open>r = Inr ()\<close>
        and st': \<open>st' = (toast (PageAnalyzed n) ?st3)\<lparr>isAnalyzing := False\<rparr>\<close>
        by simp_all
      from saveConsolidatedHistoryForPage_trace [of e sid n \<open>completed a\<close> ?st2] obtain sev where
        st3: \<open>trace ?st3 = trace ?st2 @ sev\<close>
        and sev: \<open>\<forall>ev \<in> set sev. (isStoreCall ev \<and> storeEventFor sid ev) \<or> ev = Toast SaveProgressFailed\<close>
        by blast
      have sevu: \<open>\<forall>ev \<in> set sev. finishedPage ev = None\<close>
        using sev store_unfinished by blast
      have t2: \<open>trace ?st2 = trace st1\<close>
        by (simp add: setPageAnalyses_def Let_def)
      have \<open>trace st' = trace st @ (((AnalyzeIndividualPage n # tev) @ sev) @ [Toast (PageAnalyzed n)])\<close>
        unfolding st' by (simp add: trace_toast st3 t2 st1)
      then have ne: \<open>newEvents st st' = ((AnalyzeIndividualPage n # tev) @ sev) @ [Toast (PageAnalyzed n)]\<close>
        by (rule newEvents_append)
      have \<open>\<forall>ev \<in> set ((AnalyzeIndividualPage n # tev) @ sev). finishedPage ev = None\<close>
        using tevu sevu by auto
      with ne r show ?thesis by fastforce
    next
      case (Inl err)
      show ?thesis
      proof (cases \<open>rateLimited err \<and> attempt < maxRetries - 1\<close>)
        case True
        let ?st2 = \<open>sleep RateLimitBackoff delay (toast (RateLimitRetry n delay) st1)\<close>
        let ?pre = \<open>(AnalyzeIndividualPage n # tev)
                     @ [Toast (RateLimitRetry n delay), SetTimeout RateLimitBackoff delay]\<close>
        from run analyzePage_loop_retry [OF lt nonblank, of st err st1 sid delay] c Inl True
        have run2: \<open>analyzePage_loop e sid n (Suc attempt) (delay * 2) ?st2 = (r, st')\<close>
          by simp
        have lt2: \<open>Suc attempt < maxRetries\<close> using True by linarith
        have k: \<open>k = maxRetries - Suc attempt\<close> using Suc.hyps(2) by simp
        note ih = Suc.hyps(1) [OF k lt2 run2]
        from analyzePage_loop_calls [OF lt2 nonblank run2]
        have tr2: \<open>trace st' = trace ?st2 @ newEvents ?st2 st'\<close> by blast
        have st2: \<open>trace ?st2 = trace st @ ?pre\<close>
          by (simp add: trace_setTimeout trace_toast st1)
        have \<open>trace st' = trace st @ (?pre @ newEvents ?st2 st')\<close>
          using tr2 unfolding st2 by simp
        then have ne: \<open>newEvents st st' = ?pre @ newEvents ?st2 st'\<close>
          by (rule newEvents_append)
        have pre: \<open>\<forall>ev \<in> set ?pre. finishedPage ev = None\<close>
          using tevu by auto
        show ?thesis
        proof (intro conjI impI)
          assume \<open>r = Inr ()\<close>
          with ih obtain evs t where
            \<open>newEvents ?st2 st' = evs @ [t]\<close> \<open>finishedPage t = Some n\<close>
            \<open>\<forall>ev \<in> set evs. finishedPage ev = None\<close>
            by blast
          then have \<open>newEvents st st' = (?pre @ evs) @ [t] \<and> finishedPage t = Some n
                     \<and> (\<forall>ev \<in> set (?pre @ evs). finishedPage ev = None)\<close>
            using ne pre by auto
          then show \<open>\<exists>evs t. newEvents st st' = evs @ [t] \<and> finishedPage t = Some n
                     \<and> (\<forall>ev \<in> set evs. finishedPage ev = None)\<close>
            by blast
        next
          assume \<open>\<exists>err. r = Inl err\<close>
          with ih have \<open>\<forall>ev \<in> set (newEvents ?st2 st'). finishedPage ev = None\<close>
            by blast
          then show \<open>\<forall>ev \<in> set (newEvents st st'). finishedPage ev = None\<close>
            unfolding ne using pre by auto
        next
          assume \<open>\<exists>err. r = Inl err\<close>
          with ih obtain a where \<open>Toast (PageFailed n a) \<in> set (newEvents ?st2 st')\<close>
            by blast
          then show \<open>\<exists>a. Toast (PageFailed n a) \<in> set (newEvents st st')\<close>
            unfolding ne by auto
        qed
      next
        case False
        from run analyzePage_loop_fail [OF lt nonblank, of st err st1 sid delay] c Inl False
        have r: \<open>r = Inl err\<close>
          and st': \<open>st' = (toast (PageFailed n (attempt + 1)) st1)\<lparr>isAnalyzing := False\<rparr>\<close>
          by simp_all
        have \<open>trace st' = trace st @ ((AnalyzeIndividualPage n # tev) @ [Toast (PageFailed n (attempt + 1))])\<close>
          unfolding st' by (simp add: trace_toast st1)
        then have ne: \<open>newEvents st st' = (AnalyzeIndividualPage n # tev) @ [Toast (PageFailed n (attempt + 1))]\<close>
          by (rule newEvents_append)
        show ?thesis unfolding ne using r tevu by auto
      qed
    qed
  qed
qed

lemma analyzePage_summary:
  assumes todo: \<open>\<not> analyzedIn (closureMap st) n\<close> and run: \<open>analyzePage e sid n st = (r, s1)\<close>
  shows \<open>\<exists>E. trace s1 = trace st @ E \<and> (\<forall>ev \<in> set E. pageEvent sid n ev)
            \<and> ((r = Inr () \<and> completesPage n st s1
                 \<and> (\<exists>evs t. E = evs @ [t] \<and> finishedPage t = Some n
                            \<and> (\<forall>ev \<in> set evs. finishedPage ev = None)))
               \<or> ((\<exists>err. r = Inl err) \<and> sameMaps st s1
                   \<and> (\<forall>ev \<in> set E. finishedPage ev = None)
                   \<and> (\<exists>a. Toast (PageFailed n a) \<in> set E)))\<close>
proof -
  let ?st0 = \<open>st\<lparr>isAnalyzing := True\<rparr>\<close>
  have run0: \<open>analyzePage_loop e sid n 0 2000 ?st0 = (r, s1)\<close>
    using todo run by (simp add: analyzePage_def)
  have lt: \<open>0 < maxRetries\<close> by (simp add: maxRetries_def)
  note eff = analyzePage_loop_effect [OF lt run0] and fin = analyzePage_loop_finish [OF lt run0]
  have ne: \<open>newEvents ?st0 s1 = newEvents st s1\<close> by (simp add: newEvents_def)
  from eff have ext: \<open>extendsBy (pageEvent sid n) st s1\<close>
    by (simp add: extendsBy_def)
  note E = extendsBy_newEvents [OF ext]
  have cp: \<open>completesPage n ?st0 s1 \<Longrightarrow> completesPage n st s1\<close>
    by (simp add: completesPage_def cong: if_cong)
  have sm: \<open>sameMaps ?st0 s1 \<Longrightarrow> sameMaps st s1\<close>
    by (simp add: sameMaps_def)
  show ?thesis
    using E eff fin cp sm unfolding ne
    by (intro exI [of _ \<open>newEvents st s1\<close>]) blast
qed

lemma analyzeAllPages_loop_end:
  \<open>\<not> i \<le> totalPages e \<Longrightarrow> analyzeAllPages_loop e sid i st = (True, st)\<close>
  by (subst analyzeAllPages_loop.simps) simp

lemma analyzeAllPages_loop_skip:
  \<open>i \<le> totalPages e \<Longrightarrow> analyzedIn (closureMap st) i \<Longrightarrow>
   analyzeAllPages_loop e sid i st = analyzeAllPages_loop e sid (Suc i) st\<close>
  by (subst analyzeAllPages_loop.simps) simp

lemma analyzeAllPages_loop_next:
  \<open>i \<le> totalPages e \<Longrightarrow> \<not> analyzedIn (closureMap st) i \<Longrightarrow> analyzePage e sid i st = (Inr u, s1) \<Longrightarrow>
   analyzeAllPages_loop e sid i st =
     analyzeAllPages_loop e sid (Suc i) (if i < totalPages e then sleep PoliteDelay 1000 s1 else s1)\<close>
  by (subst analyzeAllPages_loop.simps) simp

lemma analyzeAllPages_loop_stop:
  \<open>i \<le> totalPages e \<Longrightarrow> \<not> analyzedIn (closureMap st) i \<Longrightarrow> analyzePage e sid i st = (Inl err, s1) \<Longrightarrow>
   analyzeAllPages_loop e sid i st = (False, toast (AnalysisStopped i) s1)\<close>
  by (subst analyzeAllPages_loop.simps) simp

lemma analyzedIn_map_of:
  \<open>analyzedIn m n \<longleftrightarrow> (\<exists>a. map_of m n = Some a \<and> isAnalyzed a)\<close>
  by (auto simp: analyzedIn_def mapHas_def mapGet_def split: option.splits)

lemma analyzedIn_cong: \<open>map_of m j = map_of m' j \<Longrightarrow> analyzedIn m j = analyzedIn m' j\<close>
  by (simp add: analyzedIn_map_of)

lemma all_eq_sorted: \<open>\<forall>p \<in> set xs. p = (i::nat) \<Longrightarrow> sorted xs\<close>
  by (induction xs) auto

lemma pageEvent_clientPages:
  assumes \<open>\<forall>ev \<in> set E. pageEvent sid n ev\<close>
  shows \<open>\<forall>p \<in> set (clientPages E). p = n\<close>
proof
  fix p assume \<open>p \<in> set (clientPages E)\<close>
  with assms have \<open>pageEvent sid n (AnalyzeIndividualPage p)\<close>
    by (simp add: clientPages_set)
  then show \<open>p = n\<close> by (simp add: pageEvent_def)
qed

lemma polite_delay [simp]: \<open>polite N (SetTimeout PoliteDelay 1000 # evs) = polite N evs\<close>
  by simp

lemma saveConsolidatedHistoryForPage_seen:
  \<open>closureMap (saveConsolidatedHistoryForPage e sid n a st) = closureMap st
   \<or> closureMap (saveConsolidatedHistoryForPage e sid n a st) = closureQueued st\<close>
  by (auto simp: saveConsolidatedHistoryForPage_def call_updateStudyHistory_def
        call_saveStudyHistory_def toast_def emit_def Let_def
      split: option.split sum.split)

text \<open>
  The \<^verbatim>\<open>Map\<close> of the running function after \<^verbatim>\<open>analyzePage\<close>: no updater has run, or
  those queued before the call, or all of them.
\<close>

lemma analyzePage_loop_seen:
  assumes \<open>analyzePage_loop e sid n attempt delay st = (r, st')\<close>
  shows \<open>closureMap st' = closureMap st \<or> closureMap st' = closureQueued st
         \<or> closureMap st' = closureQueued st'\<close>
  using assms
proof (induction \<open>maxRetries - attempt\<close> arbitrary: attempt delay st)
  case 0
  then have \<open>\<not> attempt < maxRetries\<close> by simp
  from analyzePage_loop_exhausted [OF this, of e sid n delay st] "0.prems"
  show ?case by simp
next
  case (Suc k)
  then have lt: \<open>attempt < maxRetries\<close> by simp
  note run = \<open>analyzePage_loop e sid n attempt delay st = (r, st')\<close>
  show ?case
  proof (cases \<open>trim (pageText e n) = []\<close>)
    case True
    from run analyzePage_loop_blank [OF lt True, of sid delay st]
    have \<open>st' = (setPageAnalyses n (emptyAnalysis n) (toast (SkippingPage n) st))\<lparr>isAnalyzing := False\<rparr>\<close>
      by simp
    then have \<open>closureMap st' = closureMap st\<close>
      by (simp add: setPageAnalyses_def toast_def emit_def Let_def)
    then show ?thesis by simp
  next
    case False
    obtain r1 st1 where c: \<open>client e n st = (r1, st1)\<close> by (cases \<open>client e n st\<close>)
    note seen1 = client_seen [OF c]
    have q1: \<open>closureQueued st1 = closureQueued st\<close>
      using client_frame(2) [OF c] by (simp add: sameMaps_def)
    show ?thesis
    proof (cases r1)
      case (Inr a)
      let ?st2 = \<open>setPageAnalyses n (completed a) st1\<close>
      let ?st3 = \<open>saveConsolidatedHistoryForPage e sid n (completed a) ?st2\<close>
      from run analyzePage_loop_success [OF lt False, of st a st1 sid delay] c Inr
      have st': \<open>st' = (toast (PageAnalyzed n) ?st3)\<lparr>isAnalyzing := False\<rparr>\<close>
        by simp
      have m2: \<open>closureMap ?st2 = closureQueued st\<close>
        by (simp add: setPageAnalyses_def Let_def seen1)
      have m': \<open>closureMap st' = closureMap ?st3\<close> \<open>closureQueued st' = closureQueued ?st2\<close>
        by (simp_all add: st' toast_def emit_def)
      from saveConsolidatedHistoryForPage_seen [of e sid n \<open>completed a\<close> ?st2]
      show ?thesis unfolding m' m2 by blast
    next
      case (Inl err)
      show ?thesis
      proof (cases \<open>rateLimited err \<and> attempt < maxRetries - 1\<close>)
        case True
        let ?st2 = \<open>sleep RateLimitBackoff delay (toast (RateLimitRetry n delay) st1)\<close>
        from run analyzePage_loop_retry [OF lt False, of st err st1 sid delay] c Inl True
        have run2: \<open>analyzePage_loop e sid n (Suc attempt) (delay * 2) ?st2 = (r, st')\<close>
          by simp
        have k: \<open>k = maxRetries - Suc attempt\<close> using Suc.hyps(2) by simp
        have m2: \<open>closureMap ?st2 = closureQueued st\<close> \<open>closureQueued ?st2 = closureQueued st\<close>
          by (simp_all add: toast_def emit_def q1)
        from Suc.hyps(1) [OF k run2] show ?thesis unfolding m2 by blast
      next
        case False2: False
        from run analyzePage_loop_fail [OF lt False, of st err st1 sid delay] c Inl False2
        have \<open>st' = (toast (PageFailed n (attempt + 1)) st1)\<lparr>isAnalyzing := False\<rparr>\<close>
          by simp
        then have \<open>closureMap st' = closureQueued st\<close>
          by (simp add: toast_def emit_def seen1)
        then show ?thesis by simp
      qed
    qed
  qed
qed

lemma analyzePage_seen:
  assumes \<open>analyzePage e sid n st = (r, s1)\<close>
  shows \<open>closureMap s1 = closureMap st \<or> closureMap s1 = closureQueued st
         \<or> closureMap s1 = closureQueued s1\<close>
proof (cases \<open>analyzedIn (closureMap st) n\<close>)
  case True
  with assms show ?thesis by (simp add: analyzePage_def)
next
  case False
  with assms have \<open>analyzePage_loop e sid n 0 2000 (st\<lparr>isAnalyzing := True\<rparr>) = (r, s1)\<close>
    by (simp add: analyzePage_def)
  from analyzePage_loop_seen [OF this] show ?thesis by simp
qed

lemma analyzeAllPages_loop_effect:
  assumes \<open>agreeFrom i st\<close> and \<open>analyzeAllPages_loop e sid i st = (ok, st')\<close>
  shows \<open>\<exists>E. trace st' = trace st @ E
            \<and> sorted (clientPages E)
            \<and> (\<forall>p \<in> set (clientPages E). i \<le> p \<and> p \<le> totalPages e \<and> \<not> analyzedIn (pageAnalyses st) p)
            \<and> polite (totalPages e) E
            \<and> (\<forall>j < i. map_of (pageAnalyses st') j = map_of (pageAnalyses st) j)
            \<and> (ok \<longrightarrow> (\<forall>ev \<in> set E. batchEvent sid i (totalPages e) ev)
                       \<and> (\<forall>j. i \<le> j \<and> j \<le> totalPages e \<longrightarrow> analyzedIn (pageAnalyses st') j))
            \<and> (\<not> ok \<longrightarrow>
                 (\<exists>k evs. i \<le> k \<and> k \<le> totalPages e \<and> E = evs @ [Toast (AnalysisStopped k)]
                     \<and> (\<forall>ev \<in> set evs. batchEvent sid i k ev)
                     \<and> (\<exists>a. Toast (PageFailed k a) \<in> set evs)
                     \<and> (\<forall>j. i \<le> j \<and> j < k \<longrightarrow> analyzedIn (pageAnalyses st') j)
                     \<and> \<not> analyzedIn (pageAnalyses st') k
                     \<and> (\<forall>j > k. map_of (pageAnalyses st') j = map_of (pageAnalyses st) j)))\<close>
  using assms
proof (induction \<open>Suc (totalPages e) - i\<close> arbitrary: i st)
  case 0
  then have \<open>\<not> i \<le> totalPages e\<close> by simp
  from analyzeAllPages_loop_end [OF this, of sid st] "0.prems"(2)
  have \<open>ok\<close> \<open>st' = st\<close> by simp_all
  then show ?case
    using \<open>\<not> i \<le> totalPages e\<close> by (intro exI [of _ \<open>[]\<close>]) (auto simp: clientPages_def)
next
  case (Suc m)
  let ?N = \<open>totalPages e\<close>
  note agree = \<open>agreeFrom i st\<close> and run = \<open>analyzeAllPages_loop e sid i st = (ok, st')\<close>
  from Suc.hyps(2) have le: \<open>i \<le> ?N\<close> and m: \<open>m = Suc ?N - Suc i\<close> by simp_all
  have same_i: \<open>analyzedIn (closureMap st) i = analyzedIn (pageAnalyses st) i\<close>
    using agree by (intro analyzedIn_cong) (simp add: agreeFrom_def)
  show ?case
  proof (cases \<open>analyzedIn (closureMap st) i\<close>)
    case True
    have agree2: \<open>agreeFrom (Suc i) st\<close> using agree by (simp add: agreeFrom_def)
    from run analyzeAllPages_loop_skip [OF le True, of sid]
    have run2: \<open>analyzeAllPages_loop e sid (Suc i) st = (ok, st')\<close> by simp
    from Suc.hyps(1) [OF m agree2 run2] obtain E where
      tr: \<open>trace st' = trace st @ E\<close>
      and so: \<open>sorted (clientPages E)\<close>
      and cp: \<open>\<forall>p \<in> set (clientPages E). Suc i \<le> p \<and> p \<le> ?N \<and> \<not> analyzedIn (pageAnalyses st) p\<close>
      and po: \<open>polite ?N E\<close>
      and below: \<open>\<forall>j < Suc i. map_of (pageAnalyses st') j = map_of (pageAnalyses st) j\<close>
      and good: \<open>ok \<longrightarrow> (\<forall>ev \<in> set E. batchEvent sid (Suc i) ?N ev)
                       \<and> (\<forall>j. Suc i \<le> j \<and> j \<le> ?N \<longrightarrow> analyzedIn (pageAnalyses st') j)\<close>
      and bad: \<open>\<not> ok \<longrightarrow>
                 (\<exists>k evs. Suc i \<le> k \<and> k \<le> ?N \<and> E = evs @ [Toast (AnalysisStopped k)]
                     \<and> (\<forall>ev \<in> set evs. batchEvent sid (Suc i) k ev)
                     \<and> (\<exists>a. Toast (PageFailed k a) \<in> set evs)
                     \<and> (\<forall>j. Suc i \<le> j \<and> j < k \<longrightarrow> analyzedIn (pageAnalyses st') j)
                     \<and> \<not> analyzedIn (pageAnalyses st') k
                     \<and> (\<forall>j > k. map_of (pageAnalyses st') j = map_of (pageAnalyses st) j))\<close>
      by blast
    have at_i: \<open>analyzedIn (pageAnalyses st') i\<close>
      using True same_i below analyzedIn_cong [of \<open>pageAnalyses st'\<close> i \<open>pageAnalyses st\<close>] by simp
    have from_i: \<open>analyzedIn (pageAnalyses st') j\<close>
      if \<open>i \<le> j\<close> and \<open>Suc i \<le> j \<Longrightarrow> analyzedIn (pageAnalyses st') j\<close> for j
      using that at_i by (cases \<open>j = i\<close>) auto
    have c1: \<open>\<forall>p \<in> set (clientPages E). i \<le> p \<and> p \<le> ?N \<and> \<not> analyzedIn (pageAnalyses st) p\<close>
      using cp by auto
    have c2: \<open>\<forall>j < i. map_of (pageAnalyses st') j = map_of (pageAnalyses st) j\<close>
      using below by simp
    have c3: \<open>ok \<longrightarrow> (\<forall>ev \<in> set E. batchEvent sid i ?N ev)
                       \<and> (\<forall>j. i \<le> j \<and> j \<le> ?N \<longrightarrow> analyzedIn (pageAnalyses st') j)\<close>
      using good from_i by (auto intro: batchEvent_mono)
    have c4: \<open>\<not> ok \<longrightarrow>
                 (\<exists>k evs. i \<le> k \<and> k \<le> ?N \<and> E = evs @ [Toast (AnalysisStopped k)]
                     \<and> (\<forall>ev \<in> set evs. batchEvent sid i k ev)
                     \<and> (\<exists>a. Toast (PageFailed k a) \<in> set evs)
                     \<and> (\<forall>j. i \<le> j \<and> j < k \<longrightarrow> analyzedIn (pageAnalyses st') j)
                     \<and> \<not> analyzedIn (pageAnalyses st') k
                     \<and> (\<forall>j > k. map_of (pageAnalyses st') j = map_of (pageAnalyses st) j))\<close>
    proof
      assume \<open>\<not> ok\<close>
      with bad obtain k evs where
        k: \<open>Suc i \<le> k\<close> \<open>k \<le> ?N\<close> \<open>E = evs @ [Toast (AnalysisStopped k)]\<close>
        \<open>\<forall>ev \<in> set evs. batchEvent sid (Suc i) k ev\<close>
        \<open>\<exists>a. Toast (PageFailed k a) \<in> set evs\<close>
        \<open>\<forall>j. Suc i \<le> j \<and> j < k \<longrightarrow> analyzedIn (pageAnalyses st') j\<close>
        \<open>\<not> analyzedIn (pageAnalyses st') k\<close>
        \<open>\<forall>j > k. map_of (pageAnalyses st') j = map_of (pageAnalyses st) j\<close>
        by blast
      have \<open>\<forall>ev \<in> set evs. batchEvent sid i k ev\<close>
        using k(4) by (auto intro: batchEvent_mono)
      moreover have \<open>\<forall>j. i \<le> j \<and> j < k \<longrightarrow> analyzedIn (pageAnalyses st') j\<close>
        using k(6) from_i by auto
      moreover have \<open>i \<le> k\<close> using k(1) by simp
      ultimately show \<open>\<exists>k evs. i \<le> k \<and> k \<le> ?N \<and> E = evs @ [Toast (AnalysisStopped k)]
                     \<and> (\<forall>ev \<in> set evs. batchEvent sid i k ev)
                     \<and> (\<exists>a. Toast (PageFailed k a) \<in> set evs)
                     \<and> (\<forall>j. i \<le> j \<and> j < k \<longrightarrow> analyzedIn (pageAnalyses st') j)
                     \<and> \<not> analyzedIn (pageAnalyses st') k
                     \<and> (\<forall>j > k. map_of (pageAnalyses st') j = map_of (pageAnalyses st) j)\<close>
        using k(2,3,5,7,8) by blast
    qed
    show ?thesis
      using tr so c1 po c2 c3 c4 by (intro exI [of _ E]) blast
  next
    case todo: False
    then have not_i: \<open>\<not> analyzedIn (pageAnalyses st) i\<close> using same_i by simp
    obtain r s1 where ap: \<open>analyzePage e sid i st = (r, s1)\<close> by (cases \<open>analyzePage e sid i st\<close>)
    from analyzePage_summary [OF todo ap] obtain E1 where
      tr1: \<open>trace s1 = trace st @ E1\<close>
      and pe1: \<open>\<forall>ev \<in> set E1. pageEvent sid i ev\<close>
      and alt: \<open>(r = Inr () \<and> completesPage i st s1
                  \<and> (\<exists>evs t. E1 = evs @ [t] \<and> finishedPage t = Some i
                             \<and> (\<forall>ev \<in> set evs. finishedPage ev = None)))
                \<or> ((\<exists>err. r = Inl err) \<and> sameMaps st s1
                    \<and> (\<forall>ev \<in> set E1. finishedPage ev = None)
                    \<and> (\<exists>a. Toast (PageFailed i a) \<in> set E1))\<close>
      by blast
    have cp1: \<open>\<forall>p \<in> set (clientPages E1). p = i\<close>
      using pe1 by (rule pageEvent_clientPages)
    have be1: \<open>\<forall>ev \<in> set E1. batchEvent sid i i ev\<close>
      using pe1 by (auto intro: pageEvent_batchEvent)
    show ?thesis
    proof (cases r)
      case (Inl err)
      with alt have sm: \<open>sameMaps st s1\<close> and unf: \<open>\<forall>ev \<in> set E1. finishedPage ev = None\<close>
        and pf: \<open>\<exists>a. Toast (PageFailed i a) \<in> set E1\<close>
        by auto
      from run analyzeAllPages_loop_stop [OF le todo, of sid err s1] ap Inl
      have ok: \<open>\<not> ok\<close> and st': \<open>st' = toast (AnalysisStopped i) s1\<close> by simp_all
      have pa: \<open>pageAnalyses st' = pageAnalyses st\<close>
        using sm by (simp add: st' sameMaps_def toast_def emit_def)
      let ?E = \<open>E1 @ [Toast (AnalysisStopped i)]\<close>
      have tr: \<open>trace st' = trace st @ ?E\<close>
        by (simp add: st' trace_toast tr1)
      have \<open>clientPages ?E = clientPages E1\<close> by (simp add: clientPages_def)
      then have c0: \<open>sorted (clientPages ?E)\<close>
        and c1: \<open>\<forall>p \<in> set (clientPages ?E). i \<le> p \<and> p \<le> ?N \<and> \<not> analyzedIn (pageAnalyses st) p\<close>
        using cp1 le not_i all_eq_sorted [OF cp1] by auto
      have c2: \<open>polite ?N ?E\<close>
        using unf by (intro polite_unfinished) auto
      have c4: \<open>\<exists>k evs. i \<le> k \<and> k \<le> ?N \<and> ?E = evs @ [Toast (AnalysisStopped k)]
                     \<and> (\<forall>ev \<in> set evs. batchEvent sid i k ev)
                     \<and> (\<exists>a. Toast (PageFailed k a) \<in> set evs)
                     \<and> (\<forall>j. i \<le> j \<and> j < k \<longrightarrow> analyzedIn (pageAnalyses st') j)
                     \<and> \<not> analyzedIn (pageAnalyses st') k
                     \<and> (\<forall>j > k. map_of (pageAnalyses st') j = map_of (pageAnalyses st) j)\<close>
        using le be1 pf not_i pa by (intro exI [of _ i] exI [of _ E1]) auto
      show ?thesis
        using tr c0 c1 c2 c4 ok pa by (intro exI [of _ ?E]) simp
    next
      case (Inr u)
      with alt obtain evs1 t where
        cpl: \<open>completesPage i st s1\<close>
        and E1: \<open>E1 = evs1 @ [t]\<close> and fin: \<open>finishedPage t = Some i\<close>
        and unf: \<open>\<forall>ev \<in> set evs1. finishedPage ev = None\<close>
        by auto
      from cpl obtain a where a: \<open>isAnalyzed a\<close>
        and pa1: \<open>pageAnalyses s1 = mapSet (pageAnalyses st) i a\<close>
        and cq1: \<open>closureQueued s1 = (if closureShared st then mapSet (pageAnalyses st) i a else closureQueued st)\<close>
        by (auto simp: completesPage_def)
      note seen1 = analyzePage_seen [OF ap]
      let ?s2 = \<open>if i < ?N then sleep PoliteDelay 1000 s1 else s1\<close>
      let ?D = \<open>if i < ?N then [SetTimeout PoliteDelay 1000] else []\<close>
      have tr2: \<open>trace ?s2 = trace st @ E1 @ ?D\<close>
        by (simp add: trace_setTimeout tr1)
      have pa2: \<open>pageAnalyses ?s2 = mapSet (pageAnalyses st) i a\<close>
        by (simp add: setTimeout_def emit_def pa1)
      have cq2: \<open>closureQueued ?s2 = closureQueued s1\<close> by simp
      have cm2: \<open>closureMap ?s2 = closureMap s1 \<or> closureMap ?s2 = closureQueued s1\<close> by simp
      have other: \<open>map_of (pageAnalyses ?s2) j = map_of (pageAnalyses st) j\<close> if \<open>j \<noteq> i\<close> for j
        using that unfolding pa2 by (simp add: map_of_mapSet)
      have agree2: \<open>agreeFrom (Suc i) ?s2\<close>
        unfolding agreeFrom_def
      proof (intro allI impI)
        fix j assume \<open>Suc i \<le> j\<close>
        then have j: \<open>j \<noteq> i\<close> \<open>i \<le> j\<close> by simp_all
        have old: \<open>map_of (closureMap st) j = map_of (pageAnalyses st) j\<close>
          \<open>map_of (closureQueued st) j = map_of (pageAnalyses st) j\<close>
          using j agree by (simp_all add: agreeFrom_def)
        have q: \<open>map_of (closureQueued s1) j = map_of (pageAnalyses st) j\<close>
          unfolding cq1 using j old by (simp add: map_of_mapSet)
        have \<open>map_of (closureMap s1) j = map_of (pageAnalyses st) j\<close>
          using seen1 old q by auto
        with q cm2 have \<open>map_of (closureMap ?s2) j = map_of (pageAnalyses st) j\<close>
          by auto
        with q cq2 show \<open>map_of (closureMap ?s2) j = map_of (pageAnalyses ?s2) j
                         \<and> map_of (closureQueued ?s2) j = map_of (pageAnalyses ?s2) j\<close>
          using other [OF j(1)] by simp
      qed
      from run analyzeAllPages_loop_next [OF le todo, of sid u s1] ap Inr
      have run2: \<open>analyzeAllPages_loop e sid (Suc i) ?s2 = (ok, st')\<close> by simp
      from Suc.hyps(1) [OF m agree2 run2] obtain E2 where
        tr: \<open>trace st' = trace ?s2 @ E2\<close>
        and so: \<open>sorted (clientPages E2)\<close>
        and cp: \<open>\<forall>p \<in> set (clientPages E2). Suc i \<le> p \<and> p \<le> ?N \<and> \<not> analyzedIn (pageAnalyses ?s2) p\<close>
        and po: \<open>polite ?N E2\<close>
        and below: \<open>\<forall>j < Suc i. map_of (pageAnalyses st') j = map_of (pageAnalyses ?s2) j\<close>
        and good: \<open>ok \<longrightarrow> (\<forall>ev \<in> set E2. batchEvent sid (Suc i) ?N ev)
                         \<and> (\<forall>j. Suc i \<le> j \<and> j \<le> ?N \<longrightarrow> analyzedIn (pageAnalyses st') j)\<close>
        and bad: \<open>\<not> ok \<longrightarrow>
                   (\<exists>k evs. Suc i \<le> k \<and> k \<le> ?N \<and> E2 = evs @ [Toast (AnalysisStopped k)]
                       \<and> (\<forall>ev \<in> set evs. batchEvent sid (Suc i) k ev)
                       \<and> (\<exists>a. Toast (PageFailed k a) \<in> set evs)
                       \<and> (\<forall>j. Suc i \<le> j \<and> j < k \<longrightarrow> analyzedIn (pageAnalyses st') j)
                       \<and> \<not> analyzedIn (pageAnalyses st') k
                       \<and> (\<forall>j > k. map_of (pageAnalyses st') j = map_of (pageAnalyses ?s2) j))\<close>
        by blast
      let ?E = \<open>E1 @ ?D @ E2\<close>
      have trE: \<open>trace st' = trace st @ ?E\<close>
        unfolding tr tr2 by simp
      have cpD: \<open>clientPages ?D = []\<close> by (simp add: clientPages_def)
      have cpE: \<open>clientPages ?E = clientPages E1 @ clientPages E2\<close>
        unfolding clientPages_append cpD by simp
      have c0: \<open>sorted (clientPages ?E)\<close>
        unfolding cpE sorted_append using all_eq_sorted [OF cp1] so cp1 cp by fastforce
      have c1: \<open>\<forall>p \<in> set (clientPages ?E). i \<le> p \<and> p \<le> ?N \<and> \<not> analyzedIn (pageAnalyses st) p\<close>
      proof
        fix p assume \<open>p \<in> set (clientPages ?E)\<close>
        then consider \<open>p \<in> set (clientPages E1)\<close> | \<open>p \<in> set (clientPages E2)\<close>
          unfolding cpE by auto
        then show \<open>i \<le> p \<and> p \<le> ?N \<and> \<not> analyzedIn (pageAnalyses st) p\<close>
        proof cases
          case 1
          with cp1 have \<open>p = i\<close> by blast
          then show ?thesis using le not_i by simp
        next
          case 2
          with cp have p: \<open>Suc i \<le> p\<close> \<open>p \<le> ?N\<close> \<open>\<not> analyzedIn (pageAnalyses ?s2) p\<close> by blast+
          then have \<open>p \<noteq> i\<close> by simp
          from analyzedIn_cong [OF other [OF this]] p show ?thesis by simp
        qed
      qed
      have c2: \<open>polite ?N ?E\<close>
      proof -
        have \<open>polite ?N (evs1 @ t # (?D @ E2))\<close>
          unfolding polite_finished_last [OF unf fin] using po le by (cases \<open>i < ?N\<close>) auto
        then show ?thesis by (simp add: E1)
      qed
      have c3: \<open>\<forall>j < i. map_of (pageAnalyses st') j = map_of (pageAnalyses st) j\<close>
        using below other by simp
      have at_i: \<open>analyzedIn (pageAnalyses st') i\<close>
      proof -
        have \<open>map_of (pageAnalyses st') i = Some a\<close>
          using below pa2 by (simp add: map_of_mapSet)
        then show ?thesis using a by (simp add: analyzedIn_map_of)
      qed
      have from_i: \<open>analyzedIn (pageAnalyses st') j\<close>
        if \<open>i \<le> j\<close> and \<open>Suc i \<le> j \<Longrightarrow> analyzedIn (pageAnalyses st') j\<close> for j
        using that at_i by (cases \<open>j = i\<close>) auto
      have beD: \<open>\<forall>ev \<in> set ?D. batchEvent sid i hi ev\<close> for hi
        by (simp add: batchEvent_def storeEventFor_def)
      have c4: \<open>ok \<longrightarrow> (\<forall>ev \<in> set ?E. batchEvent sid i ?N ev)
                       \<and> (\<forall>j. i \<le> j \<and> j \<le> ?N \<longrightarrow> analyzedIn (pageAnalyses st') j)\<close>
      proof (intro impI conjI)
        assume ok
        with good have g: \<open>\<forall>ev \<in> set E2. batchEvent sid (Suc i) ?N ev\<close>
          \<open>\<forall>j. Suc i \<le> j \<and> j \<le> ?N \<longrightarrow> analyzedIn (pageAnalyses st') j\<close>
          by blast+
        have \<open>\<forall>ev \<in> set E1. batchEvent sid i ?N ev\<close>
          using be1 le by (auto intro: batchEvent_mono)
        moreover have \<open>\<forall>ev \<in> set E2. batchEvent sid i ?N ev\<close>
          using g(1) by (auto intro: batchEvent_mono)
        ultimately show \<open>\<forall>ev \<in> set ?E. batchEvent sid i ?N ev\<close>
          using beD [of ?N] by auto
        show \<open>\<forall>j. i \<le> j \<and> j \<le> ?N \<longrightarrow> analyzedIn (pageAnalyses st') j\<close>
          using g(2) from_i by auto
      qed
      have c5: \<open>\<not> ok \<longrightarrow>
                 (\<exists>k evs. i \<le> k \<and> k \<le> ?N \<and> ?E = evs @ [Toast (AnalysisStopped k)]
                     \<and> (\<forall>ev \<in> set evs. batchEvent sid i k ev)
                     \<and> (\<exists>a. Toast (PageFailed k a) \<in> set evs)
                     \<and> (\<forall>j. i \<le> j \<and> j < k \<longrightarrow> analyzedIn (pageAnalyses st') j)
                     \<and> \<not> analyzedIn (pageAnalyses st') k
                     \<and> (\<forall>j > k. map_of (pageAnalyses st') j = map_of (pageAnalyses st) j))\<close>
      proof
        assume \<open>\<not> ok\<close>
        with bad obtain k evs where
          k: \<open>Suc i \<le> k\<close> \<open>k \<le> ?N\<close> \<open>E2 = evs @ [Toast (AnalysisStopped k)]\<close>
          \<open>\<forall>ev \<in> set evs. batchEvent sid (Suc i) k ev\<close>
          \<open>\<exists>a. Toast (PageFailed k a) \<in> set evs\<close>
          \<open>\<forall>j. Suc i \<le> j \<and> j < k \<longrightarrow> analyzedIn (pageAnalyses st') j\<close>
          \<open>\<not> analyzedIn (pageAnalyses st') k\<close>
          \<open>\<forall>j > k. map_of (pageAnalyses st') j = map_of (pageAnalyses ?s2) j\<close>
          by blast
        let ?evs = \<open>E1 @ ?D @ evs\<close>
        have e: \<open>?E = ?evs @ [Toast (AnalysisStopped k)]\<close>
          using k(3) by simp
        have \<open>\<forall>ev \<in> set E1. batchEvent sid i k ev\<close>
          using be1 k(1) by (auto intro: batchEvent_mono)
        moreover have \<open>\<forall>ev \<in> set evs. batchEvent sid i k ev\<close>
          using k(4) by (auto intro: batchEvent_mono)
        ultimately have b: \<open>\<forall>ev \<in> set ?evs. batchEvent sid i k ev\<close>
          using beD [of k] by auto
        have f: \<open>\<exists>a. Toast (PageFailed k a) \<in> set ?evs\<close>
          using k(5) by auto
        have d: \<open>\<forall>j. i \<le> j \<and> j < k \<longrightarrow> analyzedIn (pageAnalyses st') j\<close>
          using k(6) from_i by auto
        have u: \<open>\<forall>j > k. map_of (pageAnalyses st') j = map_of (pageAnalyses st) j\<close>
          using k(8) k(1) other by simp
        have \<open>i \<le> k\<close> using k(1) by simp
        then show \<open>\<exists>k evs. i \<le> k \<and> k \<le> ?N \<and> ?E = evs @ [Toast (AnalysisStopped k)]
                     \<and> (\<forall>ev \<in> set evs. batchEvent sid i k ev)
                     \<and> (\<exists>a. Toast (PageFailed k a) \<in> set evs)
                     \<and> (\<forall>j. i \<le> j \<and> j < k \<longrightarrow> analyzedIn (pageAnalyses st') j)
                     \<and> \<not> analyzedIn (pageAnalyses st') k
                     \<and> (\<forall>j > k. map_of (pageAnalyses st') j = map_of (pageAnalyses st) j)\<close>
          using k(2,7) e b f d u by blast
      qed
      show ?thesis
        using trE c0 c1 c2 c3 c4 c5 by (intro exI [of _ ?E]) blast
    qed
  qed
qed



lemma run_analyzeAllPages_effect:
  \<open>\<exists>ok st1 E F.
      analyzeAllPages_loop e (studyHistoryId st) 1 ((render st)\<lparr>isAnalyzing := True\<rparr>) = (ok, st1)
      \<and> trace st1 = trace st @ E
      \<and> (F = [] \<or> (ok \<and> F = [Toast AllPagesAnalyzed]))
      \<and> trace (run_analyzeAllPages e st) = trace st @ E @ F
      \<and> pageAnalyses (run_analyzeAllPages e st) = pageAnalyses st1\<close>
proof -
  let ?st0 = \<open>(render st)\<lparr>isAnalyzing := True\<rparr>\<close>
  obtain ok st1 where loop: \<open>analyzeAllPages_loop e (studyHistoryId st) 1 ?st0 = (ok, st1)\<close>
    by (cases \<open>analyzeAllPages_loop e (studyHistoryId st) 1 ?st0\<close>)
  have agree: \<open>agreeFrom 1 ?st0\<close> by (simp add: agreeFrom_def render_def)
  from analyzeAllPages_loop_effect [OF agree loop] obtain E where
    tr: \<open>trace st1 = trace ?st0 @ E\<close> by blast
  then have tr': \<open>trace st1 = trace st @ E\<close> by (simp add: render_def)
  let ?F = \<open>if ok \<and> length (filter isAnalyzed (mapValues (closureMap st1))) = totalPages e
            then [Toast AllPagesAnalyzed] else []\<close>
  have loop': \<open>analyzeAllPages_loop e (studyHistoryId st) (Suc 0) ?st0 = (ok, st1)\<close>
    using loop by simp
  have \<open>trace (run_analyzeAllPages e st) = trace st @ E @ ?F\<close>
    by (simp add: run_analyzeAllPages_def analyzeAllPages_def loop' Let_def trace_toast tr')
  moreover have \<open>pageAnalyses (run_analyzeAllPages e st) = pageAnalyses st1\<close>
    by (simp add: run_analyzeAllPages_def analyzeAllPages_def loop' Let_def toast_def emit_def)
  moreover have \<open>?F = [] \<or> (ok \<and> ?F = [Toast AllPagesAnalyzed])\<close> by simp
  ultimately show ?thesis using loop tr' by blast
qed



section \<open>A recovered identifier\<close>

lemma mount_recovered:
  \<open>\<not> truthyStr (initialStudyHistoryId e) \<Longrightarrow> getItem storage (sessionKey (inputFile e)) = Some sid
   \<Longrightarrow> sid \<noteq> [] \<Longrightarrow> studyHistoryId (mount e storage) = Some sid\<close>
  by (simp add: mount_def initStudyHistoryId_def truthyStr_def)

lemma storeEventFor_updates:
  \<open>sid \<noteq> [] \<Longrightarrow> storeEventFor (Some sid) ev
   \<Longrightarrow> \<not> isCreate ev \<and> (\<forall>i r m. ev = UpdateStudyHistory i r m \<longrightarrow> i = sid)\<close>
  by (cases ev) (auto simp: storeEventFor_def isCreate_def truthyStr_def)

lemma pageEvent_store: \<open>pageEvent sid n ev \<Longrightarrow> storeEventFor sid ev\<close>
  by (simp add: pageEvent_def)

lemma batchEvent_store: \<open>batchEvent sid lo hi ev \<Longrightarrow> storeEventFor sid ev\<close>
  by (simp add: batchEvent_def)

lemma saveConsolidatedHistoryForPage_update:
  assumes \<open>sid \<noteq> []\<close> \<open>user e = Some uid\<close> \<open>isAnalyzed a\<close>
  shows \<open>\<exists>rest. newEvents st (saveConsolidatedHistoryForPage e (Some sid) n a st)
            = UpdateStudyHistory sid
                (analysisResultForPage (inputFile e) (filter isAnalyzed (mapValues (mapSet (closureMap st) n a))))
                (pageAnalysesMapForFirestore (mapSet (closureMap st) n a)) # rest
            \<and> (rest = [] \<or> rest = [Toast SaveProgressFailed])\<close>
proof -
  have ne: \<open>filter isAnalyzed (mapValues (mapSet (closureMap st) n a)) \<noteq> []\<close>
  proof -
    have \<open>map_of (mapSet (closureMap st) n a) n = Some a\<close> by (simp add: map_of_mapSet)
    then have \<open>(n, a) \<in> set (mapSet (closureMap st) n a)\<close> by (rule map_of_SomeD)
    then have \<open>a \<in> set (mapValues (mapSet (closureMap st) n a))\<close>
      by (force simp: mapValues_def)
    with assms(3) show ?thesis by (auto simp: filter_empty_conv)
  qed
  show ?thesis
    using assms(1,2) ne
    by (cases \<open>updateStudyHistory e (storeCalls st) sid
                  (analysisResultForPage (inputFile e) (filter isAnalyzed (mapValues (mapSet (closureMap st) n a))))
                  (pageAnalysesMapForFirestore (mapSet (closureMap st) n a))\<close>)
       (simp_all add: saveConsolidatedHistoryForPage_def call_updateStudyHistory_def Let_def
          truthyStr_def orElse_def newEvents_def emit_def toast_def)
qed

lemma saveConsolidatedHistory_trace:
  \<open>\<exists>evs. trace (saveConsolidatedHistory e sid st) = trace st @ evs
         \<and> (\<forall>ev \<in> set evs. isStoreCall ev \<and> storeEventFor sid ev)\<close>
  by (auto simp: saveConsolidatedHistory_def call_updateStudyHistory_def
        call_saveStudyHistory_def emit_def isStoreCall_def isCreate_def isUpdate_def
        storeEventFor_def truthyStr_def orElse_def Let_def
      split: option.split sum.split)

lemma saveConsolidatedHistory_update:
  assumes \<open>sid \<noteq> []\<close> \<open>user e = Some uid\<close> \<open>filter isAnalyzed (mapValues (closureMap st)) \<noteq> []\<close>
  shows \<open>newEvents st (saveConsolidatedHistory e (Some sid) st)
           = [UpdateStudyHistory sid
                (analysisResultAll (inputFile e) (filter isAnalyzed (mapValues (closureMap st))))
                (pageAnalysesMapForFirestore (closureMap st))]\<close>
  using assms
  by (cases \<open>updateStudyHistory e (storeCalls st) sid
                (analysisResultAll (inputFile e) (filter isAnalyzed (mapValues (closureMap st))))
                (pageAnalysesMapForFirestore (closureMap st))\<close>)
     (simp_all add: saveConsolidatedHistory_def call_updateStudyHistory_def Let_def
        truthyStr_def orElse_def newEvents_def emit_def)

lemma saveConsolidatedHistoryForPage_keeps_id:
  \<open>truthyStr sid \<Longrightarrow>
   studyHistoryId (saveConsolidatedHistoryForPage e sid n a st) = studyHistoryId st\<close>
  by (auto simp: saveConsolidatedHistoryForPage_def call_updateStudyHistory_def
        toast_def emit_def Let_def split: option.split sum.split)

lemma saveConsolidatedHistory_keeps_id:
  \<open>truthyStr sid \<Longrightarrow> studyHistoryId (saveConsolidatedHistory e sid st) = studyHistoryId st\<close>
  by (auto simp: saveConsolidatedHistory_def call_updateStudyHistory_def
        emit_def Let_def split: option.split sum.split)

lemma analyzePage_loop_keeps_id:
  \<open>truthyStr sid \<Longrightarrow>
   studyHistoryId (snd (analyzePage_loop e sid n attempt delay st)) = studyHistoryId st\<close>
proof (induction \<open>maxRetries - attempt\<close> arbitrary: attempt delay st)
  case 0
  then show ?case by (simp add: analyzePage_loop_exhausted)
next
  case (Suc k)
  then have lt: \<open>attempt < maxRetries\<close> by simp
  show ?case
  proof (cases \<open>trim (pageText e n) = []\<close>)
    case True
    show ?thesis
      unfolding analyzePage_loop_blank [OF lt True]
      by (simp add: setPageAnalyses_def toast_def emit_def Let_def)
  next
    case nonblank: False
    obtain r1 st1 where c: \<open>client e n st = (r1, st1)\<close> by (cases \<open>client e n st\<close>)
    note cf5 = client_frame(5) [OF c]
    show ?thesis
    proof (cases r1)
      case (Inr a)
      show ?thesis
        unfolding analyzePage_loop_success [OF lt nonblank c [unfolded Inr]]
        using cf5 Suc.prems
        by (simp add: toast_def emit_def saveConsolidatedHistoryForPage_keeps_id
              setPageAnalyses_def Let_def)
    next
      case (Inl err)
      show ?thesis
      proof (cases \<open>rateLimited err \<and> attempt < maxRetries - 1\<close>)
        case True
        have k: \<open>k = maxRetries - Suc attempt\<close> using Suc.hyps(2) by simp
        show ?thesis
          using True analyzePage_loop_retry [OF lt nonblank c [unfolded Inl], of sid delay]
            Suc.hyps(1) [OF k Suc.prems, of \<open>delay * 2\<close>
              \<open>sleep RateLimitBackoff delay (toast (RateLimitRetry n delay) st1)\<close>]
            cf5
          by (simp add: setTimeout_def toast_def emit_def)
      next
        case False
        show ?thesis
          unfolding analyzePage_loop_fail [OF lt nonblank c [unfolded Inl] False]
          using cf5 by (simp add: toast_def emit_def)
      qed
    qed
  qed
qed

lemma analyzePage_keeps_id:
  \<open>truthyStr sid \<Longrightarrow> studyHistoryId (snd (analyzePage e sid n st)) = studyHistoryId st\<close>
  by (simp add: analyzePage_def analyzePage_loop_keeps_id)

lemma analyzeAllPages_loop_keeps_id:
  \<open>truthyStr sid \<Longrightarrow> studyHistoryId (snd (analyzeAllPages_loop e sid i st)) = studyHistoryId st\<close>
proof (induction \<open>Suc (totalPages e) - i\<close> arbitrary: i st)
  case 0
  then have \<open>\<not> i \<le> totalPages e\<close> by simp
  then show ?case by (simp add: analyzeAllPages_loop_end)
next
  case (Suc m)
  then have le: \<open>i \<le> totalPages e\<close> and m: \<open>m = Suc (totalPages e) - Suc i\<close> by simp_all
  note ih = Suc.hyps(1) [OF m Suc.prems]
  show ?case
  proof (cases \<open>analyzedIn (closureMap st) i\<close>)
    case True
    show ?thesis unfolding analyzeAllPages_loop_skip [OF le True] by (rule ih)
  next
    case False
    obtain r s1 where ap: \<open>analyzePage e sid i st = (r, s1)\<close> by (cases \<open>analyzePage e sid i st\<close>)
    from analyzePage_keeps_id [OF Suc.prems, of e i st] ap
    have id1: \<open>studyHistoryId s1 = studyHistoryId st\<close> by simp
    show ?thesis
    proof (cases r)
      case (Inl err)
      show ?thesis
        unfolding analyzeAllPages_loop_stop [OF le False ap [unfolded Inl]]
        using id1 by (simp add: toast_def emit_def)
    next
      case (Inr u)
      show ?thesis
        unfolding analyzeAllPages_loop_next [OF le False ap [unfolded Inr]]
        using id1 ih [of \<open>if i < totalPages e then sleep PoliteDelay 1000 s1 else s1\<close>]
        by (simp add: setTimeout_def emit_def)
    qed
  qed
qed

lemma run_analyzePage_events:
  \<open>\<forall>ev \<in> set (newEvents st (snd (run_analyzePage e n st))). storeEventFor (studyHistoryId st) ev\<close>
proof (cases \<open>analyzedIn (pageAnalyses st) n\<close>)
  case True
  then show ?thesis
    by (simp add: analyzePage_already_analyzed newEvents_def render_def)
next
  case False
  let ?st0 = \<open>render st\<close>
  obtain r s1 where ap: \<open>analyzePage e (studyHistoryId st) n ?st0 = (r, s1)\<close>
    by (cases \<open>analyzePage e (studyHistoryId st) n ?st0\<close>)
  have todo: \<open>\<not> analyzedIn (closureMap ?st0) n\<close> using False by (simp add: render_def)
  from analyzePage_summary [OF todo ap] obtain E where
    \<open>trace s1 = trace ?st0 @ E\<close> \<open>\<forall>ev \<in> set E. pageEvent (studyHistoryId st) n ev\<close>
    by blast
  then have \<open>newEvents st s1 = E\<close> \<open>\<forall>ev \<in> set E. storeEventFor (studyHistoryId st) ev\<close>
    by (auto simp: newEvents_def render_def dest: pageEvent_store)
  then show ?thesis by (simp add: run_analyzePage_def ap)
qed

lemma run_analyzeAllPages_events:
  \<open>\<forall>ev \<in> set (newEvents st (run_analyzeAllPages e st)). storeEventFor (studyHistoryId st) ev\<close>
proof -
  let ?st0 = \<open>(render st)\<lparr>isAnalyzing := True\<rparr>\<close>
  let ?sid = \<open>studyHistoryId st\<close>
  from run_analyzeAllPages_effect [of e st] obtain ok st1 E F where
    loop: \<open>analyzeAllPages_loop e ?sid 1 ?st0 = (ok, st1)\<close>
    and F: \<open>F = [] \<or> (ok \<and> F = [Toast AllPagesAnalyzed])\<close>
    and tr1: \<open>trace st1 = trace st @ E\<close>
    and tr: \<open>trace (run_analyzeAllPages e st) = trace st @ E @ F\<close>
    by blast
  have ne: \<open>newEvents st (run_analyzeAllPages e st) = E @ F\<close>
    using tr by (rule newEvents_append)
  have agree: \<open>agreeFrom 1 ?st0\<close> by (simp add: agreeFrom_def render_def)
  from analyzeAllPages_loop_effect [OF agree loop] obtain E' where
    trE: \<open>trace st1 = trace ?st0 @ E'\<close>
    and good: \<open>ok \<longrightarrow> (\<forall>ev \<in> set E'. batchEvent ?sid 1 (totalPages e) ev)\<close>
    and bad: \<open>\<not> ok \<longrightarrow>
               (\<exists>k evs. E' = evs @ [Toast (AnalysisStopped k)] \<and> (\<forall>ev \<in> set evs. batchEvent ?sid 1 k ev))\<close>
    by blast
  have E': \<open>E' = E\<close> using trE tr1 by (simp add: render_def)
  have toast: \<open>storeEventFor ?sid (Toast t)\<close> for t by (simp add: storeEventFor_def)
  have \<open>\<forall>ev \<in> set E. storeEventFor ?sid ev\<close>
  proof (cases ok)
    case True
    with good E' show ?thesis by (auto dest: batchEvent_store)
  next
    case False
    with bad E' obtain k evs where
      \<open>E = evs @ [Toast (AnalysisStopped k)]\<close> \<open>\<forall>ev \<in> set evs. batchEvent ?sid 1 k ev\<close>
      by blast
    then show ?thesis using toast by (auto dest: batchEvent_store)
  qed
  moreover have \<open>\<forall>ev \<in> set F. storeEventFor ?sid ev\<close> using F toast by auto
  ultimately show ?thesis unfolding ne by auto
qed

lemma effect_pageAnalyses_events:
  \<open>\<forall>ev \<in> set (newEvents st (effect_pageAnalyses e st)). storeEventFor (studyHistoryId st) ev\<close>
proof -
  from saveConsolidatedHistory_trace [of e \<open>studyHistoryId st\<close> \<open>render st\<close>] obtain evs where
    \<open>trace (saveConsolidatedHistory e (studyHistoryId st) (render st)) = trace st @ evs\<close>
    \<open>\<forall>ev \<in> set evs. storeEventFor (studyHistoryId st) ev\<close>
    by (auto simp: render_def)
  then show ?thesis
    by (auto simp: effect_pageAnalyses_def newEvents_def Let_def)
qed

text \<open>
  C7. When the identifier is not given by the props and the session storage holds a
  non-empty one under the key of the file, the component starts with that identifier.
  In every state that holds a non-empty identifier, \<^verbatim>\<open>analyzePage\<close>,
  \<^verbatim>\<open>analyzeAllPages\<close> and the effect on \<^verbatim>\<open>pageAnalyses\<close> never call
  \<^verbatim>\<open>saveStudyHistory\<close>, every \<^verbatim>\<open>updateStudyHistory\<close> they issue carries that identifier,
  and the identifier stays. A consolidation for a signed-in user with an analyzed page
  does call \<^verbatim>\<open>updateStudyHistory\<close> with it.
\<close>

theorem recovered_id_updates:
  \<open>(\<not> truthyStr (initialStudyHistoryId e) \<and> getItem storage (sessionKey (inputFile e)) = Some sid
     \<and> sid \<noteq> [] \<longrightarrow> studyHistoryId (mount e storage) = Some sid)
   \<and> (studyHistoryId st = Some sid \<and> sid \<noteq> [] \<longrightarrow>
        (\<forall>ev \<in> set (newEvents st (snd (run_analyzePage e n st))).
            \<not> isCreate ev \<and> (\<forall>i r m. ev = UpdateStudyHistory i r m \<longrightarrow> i = sid))
        \<and> (\<forall>ev \<in> set (newEvents st (run_analyzeAllPages e st)).
              \<not> isCreate ev \<and> (\<forall>i r m. ev = UpdateStudyHistory i r m \<longrightarrow> i = sid))
        \<and> (\<forall>ev \<in> set (newEvents st (effect_pageAnalyses e st)).
              \<not> isCreate ev \<and> (\<forall>i r m. ev = UpdateStudyHistory i r m \<longrightarrow> i = sid))
        \<and> studyHistoryId (snd (run_analyzePage e n st)) = Some sid
        \<and> studyHistoryId (run_analyzeAllPages e st) = Some sid
        \<and> studyHistoryId (effect_pageAnalyses e st) = Some sid
        \<and> (user e = Some uid \<and> isAnalyzed a \<longrightarrow>
              (\<exists>rest. newEvents st' (saveConsolidatedHistoryForPage e (studyHistoryId st) n a st')
                  = UpdateStudyHistory sid
                      (analysisResultForPage (inputFile e)
                         (filter isAnalyzed (mapValues (mapSet (closureMap st') n a))))
                      (pageAnalysesMapForFirestore (mapSet (closureMap st') n a)) # rest
                  \<and> (rest = [] \<or> rest = [Toast SaveProgressFailed])))
        \<and> (user e = Some uid \<and> filter isAnalyzed (mapValues (pageAnalyses st)) \<noteq> [] \<longrightarrow>
              newEvents st (effect_pageAnalyses e st)
                = [UpdateStudyHistory sid
                     (analysisResultAll (inputFile e) (filter isAnalyzed (mapValues (pageAnalyses st))))
                     (pageAnalysesMapForFirestore (pageAnalyses st))]))\<close>
proof (intro conjI impI)
  assume \<open>\<not> truthyStr (initialStudyHistoryId e) \<and> getItem storage (sessionKey (inputFile e)) = Some sid
           \<and> sid \<noteq> []\<close>
  then show \<open>studyHistoryId (mount e storage) = Some sid\<close>
    by (simp add: mount_recovered)
next
  assume h: \<open>studyHistoryId st = Some sid \<and> sid \<noteq> []\<close>
  then have id: \<open>studyHistoryId st = Some sid\<close> and ne: \<open>sid \<noteq> []\<close> by simp_all
  have tr: \<open>truthyStr (Some sid)\<close> using ne by (simp add: truthyStr_def)
  show \<open>\<forall>ev \<in> set (newEvents st (snd (run_analyzePage e n st))).
            \<not> isCreate ev \<and> (\<forall>i r m. ev = UpdateStudyHistory i r m \<longrightarrow> i = sid)\<close>
    using run_analyzePage_events [of st e n] storeEventFor_updates [OF ne] unfolding id by blast
  show \<open>\<forall>ev \<in> set (newEvents st (run_analyzeAllPages e st)).
            \<not> isCreate ev \<and> (\<forall>i r m. ev = UpdateStudyHistory i r m \<longrightarrow> i = sid)\<close>
    using run_analyzeAllPages_events [of st e] storeEventFor_updates [OF ne] unfolding id by blast
  show \<open>\<forall>ev \<in> set (newEvents st (effect_pageAnalyses e st)).
            \<not> isCreate ev \<and> (\<forall>i r m. ev = UpdateStudyHistory i r m \<longrightarrow> i = sid)\<close>
    using effect_pageAnalyses_events [of st e] storeEventFor_updates [OF ne] unfolding id by blast
  show \<open>studyHistoryId (snd (run_analyzePage e n st)) = Some sid\<close>
    using analyzePage_keeps_id [OF tr, of e n \<open>render st\<close>]
    by (simp add: run_analyzePage_def id render_def)
  show \<open>studyHistoryId (run_analyzeAllPages e st) = Some sid\<close>
  proof -
    let ?st0 = \<open>(render st)\<lparr>isAnalyzing := True\<rparr>\<close>
    obtain ok st1 where loop: \<open>analyzeAllPages_loop e (Some sid) (Suc 0) ?st0 = (ok, st1)\<close>
      by (cases \<open>analyzeAllPages_loop e (Some sid) (Suc 0) ?st0\<close>)
    from analyzeAllPages_loop_keeps_id [OF tr, of e \<open>Suc 0\<close> ?st0] loop
    have \<open>studyHistoryId st1 = Some sid\<close> by (simp add: render_def id)
    then show ?thesis
      by (simp add: run_analyzeAllPages_def analyzeAllPages_def id loop Let_def toast_def emit_def)
  qed
  show \<open>studyHistoryId (effect_pageAnalyses e st) = Some sid\<close>
    using saveConsolidatedHistory_keeps_id [OF tr, of e \<open>render st\<close>]
    by (simp add: effect_pageAnalyses_def Let_def id render_def)
next
  assume h: \<open>studyHistoryId st = Some sid \<and> sid \<noteq> []\<close> and u: \<open>user e = Some uid \<and> isAnalyzed a\<close>
  from saveConsolidatedHistoryForPage_update [of sid e uid a st' n] h u
  show \<open>\<exists>rest. newEvents st' (saveConsolidatedHistoryForPage e (studyHistoryId st) n a st')
                  = UpdateStudyHistory sid
                      (analysisResultForPage (inputFile e)
                         (filter isAnalyzed (mapValues (mapSet (closureMap st') n a))))
                      (pageAnalysesMapForFirestore (mapSet (closureMap st') n a)) # rest
                  \<and> (rest = [] \<or> rest = [Toast SaveProgressFailed])\<close>
    by simp
next
  assume h: \<open>studyHistoryId st = Some sid \<and> sid \<noteq> []\<close>
    and u: \<open>user e = Some uid \<and> filter isAnalyzed (mapValues (pageAnalyses st)) \<noteq> []\<close>
  have \<open>filter isAnalyzed (mapValues (closureMap (render st))) \<noteq> []\<close>
    using u by (simp add: render_def)
  from saveConsolidatedHistory_update [of sid e uid \<open>render st\<close>, OF _ _ this] h u
  have \<open>newEvents (render st) (saveConsolidatedHistory e (Some sid) (render st))
          = [UpdateStudyHistory sid
               (analysisResultAll (inputFile e) (filter isAnalyzed (mapValues (pageAnalyses st))))
               (pageAnalysesMapForFirestore (pageAnalyses st))]\<close>
    by (simp add: render_def)
  moreover have \<open>0 < length (filter isAnalyzed (mapValues (pageAnalyses st)))\<close>
    using u by simp
  ultimately show \<open>newEvents st (effect_pageAnalyses e st)
                = [UpdateStudyHistory sid
                     (analysisResultAll (inputFile e) (filter isAnalyzed (mapValues (pageAnalyses st))))
                     (pageAnalysesMapForFirestore (pageAnalyses st))]\<close>
    using h by (simp add: effect_pageAnalyses_def Let_def newEvents_def render_def)
qed

theorem recovered_id_updates_witness:
  \<open>\<not> truthyStr (initialStudyHistoryId envFail)
   \<and> getItem storageOld (sessionKey (inputFile envFail)) = Some ''old-id'' \<and> ''old-id'' \<noteq> []
   \<and> studyHistoryId (mount envFail storageOld) = Some ''old-id''
   \<and> user envFail = Some ''u1'' \<and> isAnalyzed (emptyAnalysis 1)
   \<and> filter isCreate (newEvents (mount envFail storageOld)
                        (run_analyzeAllPages envFail (mount envFail storageOld))) = []
   \<and> studyHistoryId (run_analyzeAllPages envFail (mount envFail storageOld)) = Some ''old-id''
   \<and> (\<exists>rest. newEvents (mount envFail storageOld)
                 (saveConsolidatedHistoryForPage envFail (studyHistoryId (mount envFail storageOld)) 1
                    (emptyAnalysis 1) (mount envFail storageOld))
               = UpdateStudyHistory ''old-id''
                   (analysisResultForPage (inputFile envFail)
                      (filter isAnalyzed (mapValues (mapSet (closureMap (mount envFail storageOld)) 1
                                                       (emptyAnalysis 1)))))
                   (pageAnalysesMapForFirestore (mapSet (closureMap (mount envFail storageOld)) 1
                                                   (emptyAnalysis 1))) # rest
               \<and> (rest = [] \<or> rest = [Toast SaveProgressFailed]))\<close>
proof -
  have h1: \<open>\<not> truthyStr (initialStudyHistoryId envFail)\<close> by code_simp
  have h2: \<open>getItem storageOld (sessionKey (inputFile envFail)) = Some ''old-id''\<close> by code_simp
  have h3: \<open>''old-id'' \<noteq> []\<close> by simp
  have h4: \<open>user envFail = Some ''u1''\<close> by code_simp
  have h5: \<open>isAnalyzed (emptyAnalysis 1)\<close> by (simp add: emptyAnalysis_def)
  note inst = recovered_id_updates [of envFail storageOld \<open>''old-id''\<close> \<open>mount envFail storageOld\<close>
      1 \<open>''u1''\<close> \<open>emptyAnalysis 1\<close> \<open>mount envFail storageOld\<close>]
  from inst h1 h2 h3 have id: \<open>studyHistoryId (mount envFail storageOld) = Some ''old-id''\<close>
    by blast
  from inst id h3 have \<open>\<forall>ev \<in> set (newEvents (mount envFail storageOld)
                                      (run_analyzeAllPages envFail (mount envFail storageOld))).
                          \<not> isCreate ev\<close>
    by blast
  then have nc: \<open>filter isCreate (newEvents (mount envFail storageOld)
                        (run_analyzeAllPages envFail (mount envFail storageOld))) = []\<close>
    by (simp add: filter_empty_conv)
  from inst id h3 h4 h5 h1 h2 nc show ?thesis by blast
qed

section \<open>Persistence failures\<close>

lemma progress_toast [simp]: \<open>progress (toast t st) = progress st\<close>
  by (simp add: progress_def toast_def emit_def)

lemma progress_setTimeout [simp]: \<open>progress (setTimeout site ms st) = progress st\<close>
  by (simp add: progress_def setTimeout_def emit_def)

lemma progress_rerender [simp]:
  \<open>progress (rerender st) =
     (case progress st of (pa, cm, cq, sh, ia, mc) \<Rightarrow> (pa, cq, cq, sh, ia, mc))\<close>
  by (simp add: progress_def rerender_def)

lemma progress_sleep [simp]:
  \<open>progress (sleep site ms st) =
     (case progress st of (pa, cm, cq, sh, ia, mc) \<Rightarrow> (pa, cq, cq, sh, ia, mc))\<close>
  by (simp add: progress_def sleep_def rerender_def setTimeout_def emit_def)

lemma progress_saveConsolidatedHistoryForPage [simp]:
  \<open>progress (saveConsolidatedHistoryForPage e sid n a st) =
     (case progress st of
        (pa, cm, cq, sh, ia, mc) \<Rightarrow>
          if user e \<noteq> None \<and> filter isAnalyzed (mapValues (mapSet cm n a)) \<noteq> []
          then (pa, cq, cq, sh, ia, mc) else (pa, cm, cq, sh, ia, mc))\<close>
  by (auto simp: progress_def saveConsolidatedHistoryForPage_def call_updateStudyHistory_def
        call_saveStudyHistory_def rerender_def toast_def emit_def Let_def
      split: option.split sum.split)

lemma progress_saveConsolidatedHistory [simp]:
  \<open>progress (saveConsolidatedHistory e sid st) =
     (case progress st of
        (pa, cm, cq, sh, ia, mc) \<Rightarrow>
          if user e \<noteq> None \<and> filter isAnalyzed (mapValues cm) \<noteq> []
          then (pa, cq, cq, sh, ia, mc) else (pa, cm, cq, sh, ia, mc))\<close>
  by (auto simp: progress_def saveConsolidatedHistory_def call_updateStudyHistory_def
        call_saveStudyHistory_def rerender_def emit_def Let_def split: option.split sum.split)

lemma progress_setPageAnalyses [simp]:
  \<open>progress (setPageAnalyses n a st) =
     (case progress st of
        (pa, cm, cq, sh, ia, mc) \<Rightarrow>
          (mapSet pa n a, cm, if sh then mapSet pa n a else cq, False, ia, mc))\<close>
  by (simp add: progress_def setPageAnalyses_def Let_def)

lemma progress_isAnalyzing [simp]:
  \<open>progress (st\<lparr>isAnalyzing := b\<rparr>) =
     (case progress st of (pa, cm, cq, sh, ia, mc) \<Rightarrow> (pa, cm, cq, sh, b, mc))\<close>
  by (simp add: progress_def)

lemma progress_render:
  \<open>progress (render st)
   = (pageAnalyses st, pageAnalyses st, pageAnalyses st, True, isAnalyzing st, modelCalls st)\<close>
  by (simp add: progress_def render_def)

lemma client_progress:
  assumes env: \<open>gemini e' = gemini e\<close> \<open>pageText e' = pageText e\<close> \<open>outputLanguage e' = outputLanguage e\<close>
    and same: \<open>progress st' = progress st\<close>
  shows \<open>fst (client e' n st') = fst (client e n st)
         \<and> progress (snd (client e' n st')) = progress (snd (client e n st))\<close>
proof -
  have c': \<open>client e' n st' = client e n st'\<close>
    by (simp add: client_def env)
  have mc: \<open>modelCalls st' = modelCalls st\<close> using same by (simp add: progress_def)
  obtain r1 st1 where c1: \<open>client e n st = (r1, st1)\<close> by (cases \<open>client e n st\<close>)
  obtain r2 st2 where c2: \<open>client e n st' = (r2, st2)\<close> by (cases \<open>client e n st'\<close>)
  from client_cong [OF mc, of e n] have r: \<open>r2 = r1\<close> and m: \<open>modelCalls st2 = modelCalls st1\<close>
    unfolding c1 c2 by simp_all
  from client_frame(2,3) [OF c1] client_seen [OF c1]
  have f1: \<open>pageAnalyses st1 = pageAnalyses st\<close> \<open>closureMap st1 = closureQueued st\<close>
    \<open>closureQueued st1 = closureQueued st\<close>
    \<open>closureShared st1 = closureShared st\<close> \<open>isAnalyzing st1 = isAnalyzing st\<close>
    unfolding sameMaps_def by blast+
  from client_frame(2,3) [OF c2] client_seen [OF c2]
  have f2: \<open>pageAnalyses st2 = pageAnalyses st'\<close> \<open>closureMap st2 = closureQueued st'\<close>
    \<open>closureQueued st2 = closureQueued st'\<close>
    \<open>closureShared st2 = closureShared st'\<close> \<open>isAnalyzing st2 = isAnalyzing st'\<close>
    unfolding sameMaps_def by blast+
  from same have s: \<open>pageAnalyses st' = pageAnalyses st\<close> \<open>closureQueued st' = closureQueued st\<close>
    \<open>closureShared st' = closureShared st\<close> \<open>isAnalyzing st' = isAnalyzing st\<close>
    unfolding progress_def by blast+
  have \<open>progress st2 = progress st1\<close>
    unfolding progress_def f1 f2 s m ..
  then show ?thesis
    unfolding c' c1 c2 fst_conv snd_conv using r by blast
qed

lemma analyzePage_loop_progress:
  assumes env: \<open>gemini e' = gemini e\<close> \<open>pageText e' = pageText e\<close> \<open>outputLanguage e' = outputLanguage e\<close>
    and u: \<open>user e' = user e\<close>
    and same: \<open>progress st' = progress st\<close>
  shows \<open>fst (analyzePage_loop e' sid' n attempt delay st') = fst (analyzePage_loop e sid n attempt delay st)
         \<and> progress (snd (analyzePage_loop e' sid' n attempt delay st'))
           = progress (snd (analyzePage_loop e sid n attempt delay st))\<close>
  using same
proof (induction \<open>maxRetries - attempt\<close> arbitrary: attempt delay st st')
  case 0
  then show ?case by (simp add: analyzePage_loop_exhausted)
next
  case (Suc k)
  then have lt: \<open>attempt < maxRetries\<close> by simp
  note same = \<open>progress st' = progress st\<close>
  show ?case
  proof (cases \<open>trim (pageText e n) = []\<close>)
    case True
    then have True': \<open>trim (pageText e' n) = []\<close> by (simp add: env)
    show ?thesis
      unfolding analyzePage_loop_blank [OF lt True] analyzePage_loop_blank [OF lt True']
      using same by simp
  next
    case nonblank: False
    then have nonblank': \<open>trim (pageText e' n) \<noteq> []\<close> by (simp add: env)
    obtain r1 st1 where c: \<open>client e n st = (r1, st1)\<close> by (cases \<open>client e n st\<close>)
    obtain r1' st1' where c': \<open>client e' n st' = (r1', st1')\<close> by (cases \<open>client e' n st'\<close>)
    from client_progress [OF env same, of n] c c'
    have r: \<open>r1' = r1\<close> and p1: \<open>progress st1' = progress st1\<close> by simp_all
    show ?thesis
    proof (cases r1)
      case (Inr a)
      show ?thesis
        unfolding analyzePage_loop_success [OF lt nonblank c [unfolded Inr]]
          analyzePage_loop_success [OF lt nonblank' c' [unfolded r Inr]]
        using p1 by (simp add: u split: prod.split)
    next
      case (Inl err)
      show ?thesis
      proof (cases \<open>rateLimited err \<and> attempt < maxRetries - 1\<close>)
        case True
        have k: \<open>k = maxRetries - Suc attempt\<close> using Suc.hyps(2) by simp
        have p2: \<open>progress (sleep RateLimitBackoff delay (toast (RateLimitRetry n delay) st1'))
                  = progress (sleep RateLimitBackoff delay (toast (RateLimitRetry n delay) st1))\<close>
          using p1 by simp
        show ?thesis
          using True analyzePage_loop_retry [OF lt nonblank c [unfolded Inl], of sid delay]
            analyzePage_loop_retry [OF lt nonblank' c' [unfolded r Inl], of sid' delay]
            Suc.hyps(1) [OF k p2, of \<open>delay * 2\<close>]
          by simp
      next
        case False
        show ?thesis
          unfolding analyzePage_loop_fail [OF lt nonblank c [unfolded Inl] False]
            analyzePage_loop_fail [OF lt nonblank' c' [unfolded r Inl] False]
          using p1 by simp
      qed
    qed
  qed
qed

lemma analyzePage_progress:
  assumes env: \<open>gemini e' = gemini e\<close> \<open>pageText e' = pageText e\<close> \<open>outputLanguage e' = outputLanguage e\<close>
    and u: \<open>user e' = user e\<close>
    and same: \<open>progress st' = progress st\<close>
  shows \<open>fst (analyzePage e' sid' n st') = fst (analyzePage e sid n st)
         \<and> progress (snd (analyzePage e' sid' n st')) = progress (snd (analyzePage e sid n st))\<close>
proof -
  have cm: \<open>closureMap st' = closureMap st\<close> using same by (simp add: progress_def)
  have p0: \<open>progress (st'\<lparr>isAnalyzing := True\<rparr>) = progress (st\<lparr>isAnalyzing := True\<rparr>)\<close>
    using same by simp
  show ?thesis
    using analyzePage_loop_progress [OF env u p0, of sid' n 0 2000 sid] same
    by (simp add: analyzePage_def cm)
qed

lemma analyzeAllPages_loop_progress:
  assumes env: \<open>gemini e' = gemini e\<close> \<open>pageText e' = pageText e\<close> \<open>outputLanguage e' = outputLanguage e\<close>
    \<open>totalPages e' = totalPages e\<close>
    and u: \<open>user e' = user e\<close>
    and same: \<open>progress st' = progress st\<close>
  shows \<open>fst (analyzeAllPages_loop e' sid' i st') = fst (analyzeAllPages_loop e sid i st)
         \<and> progress (snd (analyzeAllPages_loop e' sid' i st'))
           = progress (snd (analyzeAllPages_loop e sid i st))\<close>
  using same
proof (induction \<open>Suc (totalPages e) - i\<close> arbitrary: i st st')
  case 0
  then have \<open>\<not> i \<le> totalPages e\<close> \<open>\<not> i \<le> totalPages e'\<close> by (simp_all add: env)
  then show ?case using "0.prems" by (simp add: analyzeAllPages_loop_end)
next
  case (Suc m)
  then have le: \<open>i \<le> totalPages e\<close> and m: \<open>m = Suc (totalPages e) - Suc i\<close> by simp_all
  have le': \<open>i \<le> totalPages e'\<close> using le by (simp add: env)
  note same = \<open>progress st' = progress st\<close>
  have cm: \<open>closureMap st' = closureMap st\<close> using same by (simp add: progress_def)
  show ?case
  proof (cases \<open>analyzedIn (closureMap st) i\<close>)
    case True
    then have True': \<open>analyzedIn (closureMap st') i\<close> by (simp add: cm)
    show ?thesis
      unfolding analyzeAllPages_loop_skip [OF le True] analyzeAllPages_loop_skip [OF le' True']
      by (rule Suc.hyps(1) [OF m same])
  next
    case False
    then have False': \<open>\<not> analyzedIn (closureMap st') i\<close> by (simp add: cm)
    obtain r s1 where ap: \<open>analyzePage e sid i st = (r, s1)\<close> by (cases \<open>analyzePage e sid i st\<close>)
    obtain r' s1' where ap': \<open>analyzePage e' sid' i st' = (r', s1')\<close>
      by (cases \<open>analyzePage e' sid' i st'\<close>)
    from analyzePage_progress [OF env(1,2,3) u same, of sid' i sid] ap ap'
    have r: \<open>r' = r\<close> and p1: \<open>progress s1' = progress s1\<close> by simp_all
    show ?thesis
    proof (cases r)
      case (Inl err)
      show ?thesis
        unfolding analyzeAllPages_loop_stop [OF le False ap [unfolded Inl]]
          analyzeAllPages_loop_stop [OF le' False' ap' [unfolded r Inl]]
        using p1 by simp
    next
      case (Inr u)
      have p2: \<open>progress (if i < totalPages e' then sleep PoliteDelay 1000 s1' else s1')
                = progress (if i < totalPages e then sleep PoliteDelay 1000 s1 else s1)\<close>
        using p1 by (simp add: env)
      show ?thesis
        unfolding analyzeAllPages_loop_next [OF le False ap [unfolded Inr]]
          analyzeAllPages_loop_next [OF le' False' ap' [unfolded r Inr]]
        by (rule Suc.hyps(1) [OF m p2])
    qed
  qed
qed

lemma analyzeAllPages_progress:
  assumes env: \<open>gemini e' = gemini e\<close> \<open>pageText e' = pageText e\<close> \<open>outputLanguage e' = outputLanguage e\<close>
    \<open>totalPages e' = totalPages e\<close>
    and u: \<open>user e' = user e\<close>
    and same: \<open>progress st' = progress st\<close>
  shows \<open>progress (analyzeAllPages e' sid' st') = progress (analyzeAllPages e sid st)\<close>
proof -
  let ?s0 = \<open>st\<lparr>isAnalyzing := True\<rparr>\<close> and ?s0' = \<open>st'\<lparr>isAnalyzing := True\<rparr>\<close>
  have p0: \<open>progress ?s0' = progress ?s0\<close> using same by simp
  obtain ok s1 where l: \<open>analyzeAllPages_loop e sid (Suc 0) ?s0 = (ok, s1)\<close>
    by (cases \<open>analyzeAllPages_loop e sid (Suc 0) ?s0\<close>)
  obtain ok' s1' where l': \<open>analyzeAllPages_loop e' sid' (Suc 0) ?s0' = (ok', s1')\<close>
    by (cases \<open>analyzeAllPages_loop e' sid' (Suc 0) ?s0'\<close>)
  from analyzeAllPages_loop_progress [OF env u p0, of sid' \<open>Suc 0\<close> sid] l l'
  have ok: \<open>ok' = ok\<close> and p1: \<open>progress s1' = progress s1\<close> by simp_all
  have cm: \<open>closureMap s1' = closureMap s1\<close> using p1 by (simp add: progress_def)
  show ?thesis
    using p1 by (simp add: analyzeAllPages_def l l' ok cm env Let_def)
qed

text \<open>
  C9. No consolidation changes the progress map, and none throws: the functions return a
  state. Whatever the study history service does (every \<^verbatim>\<open>saveStudyHistory\<close> and
  \<^verbatim>\<open>updateStudyHistory\<close> may fail or succeed), \<^verbatim>\<open>analyzePage\<close> returns or throws the
  same, and it and \<^verbatim>\<open>analyzeAllPages\<close> leave the same progress map, the same flags and
  the same number of requests to the model.
\<close>

theorem persistence_failure_harmless:
  \<open>pageAnalyses (saveConsolidatedHistoryForPage e sid n a st) = pageAnalyses st
   \<and> pageAnalyses (saveConsolidatedHistory e sid st) = pageAnalyses st
   \<and> pageAnalyses (effect_pageAnalyses e st) = pageAnalyses st
   \<and> fst (run_analyzePage (e\<lparr>saveStudyHistory := s', updateStudyHistory := u'\<rparr>) n st)
       = fst (run_analyzePage e n st)
   \<and> progress (snd (run_analyzePage (e\<lparr>saveStudyHistory := s', updateStudyHistory := u'\<rparr>) n st))
       = progress (snd (run_analyzePage e n st))
   \<and> pageAnalyses (snd (run_analyzePage (e\<lparr>saveStudyHistory := s', updateStudyHistory := u'\<rparr>) n st))
       = pageAnalyses (snd (run_analyzePage e n st))
   \<and> progress (run_analyzeAllPages (e\<lparr>saveStudyHistory := s', updateStudyHistory := u'\<rparr>) st)
       = progress (run_analyzeAllPages e st)
   \<and> pageAnalyses (run_analyzeAllPages (e\<lparr>saveStudyHistory := s', updateStudyHistory := u'\<rparr>) st)
       = pageAnalyses (run_analyzeAllPages e st)\<close>
proof -
  let ?e' = \<open>e\<lparr>saveStudyHistory := s', updateStudyHistory := u'\<rparr>\<close>
  have env: \<open>gemini ?e' = gemini e\<close> \<open>pageText ?e' = pageText e\<close>
    \<open>outputLanguage ?e' = outputLanguage e\<close> \<open>totalPages ?e' = totalPages e\<close>
    by simp_all
  have pa: \<open>progress x = progress y \<Longrightarrow> pageAnalyses x = pageAnalyses y\<close> for x y
    by (simp add: progress_def)
  have u: \<open>user ?e' = user e\<close> by simp
  have c1: \<open>pageAnalyses (saveConsolidatedHistory e sid x) = pageAnalyses x\<close> for sid x
    by (auto simp: saveConsolidatedHistory_def call_updateStudyHistory_def
          call_saveStudyHistory_def rerender_def emit_def Let_def split: option.split sum.split)
  have c2: \<open>pageAnalyses (effect_pageAnalyses e st) = pageAnalyses st\<close>
    using c1 [of \<open>studyHistoryId st\<close> \<open>render st\<close>]
    by (simp add: effect_pageAnalyses_def Let_def render_def)
  note ap = analyzePage_progress [OF env(1,2,3) u refl, of \<open>studyHistoryId st\<close> n \<open>render st\<close> \<open>studyHistoryId st\<close>]
  note aa = analyzeAllPages_progress [OF env u refl, of \<open>studyHistoryId st\<close> \<open>render st\<close> \<open>studyHistoryId st\<close>]
  show ?thesis
    using c1 c2 ap aa pa [OF conjunct2 [OF ap]] pa [OF aa]
    by (simp add: run_analyzePage_def run_analyzeAllPages_def)
qed

theorem persistence_failure_harmless_witness:
  \<open>fst (run_analyzePage (envRateLimited\<lparr>saveStudyHistory := saveFails, updateStudyHistory := updateFails\<rparr>)
          1 (mount envRateLimited []))
     = fst (run_analyzePage envRateLimited 1 (mount envRateLimited []))
   \<and> pageAnalyses (snd (run_analyzePage
         (envRateLimited\<lparr>saveStudyHistory := saveFails, updateStudyHistory := updateFails\<rparr>)
         1 (mount envRateLimited [])))
     = pageAnalyses (snd (run_analyzePage envRateLimited 1 (mount envRateLimited [])))
   \<and> pageAnalyses (run_analyzeAllPages
         (envRateLimited\<lparr>saveStudyHistory := saveFails, updateStudyHistory := updateFails\<rparr>)
         (mount envRateLimited []))
     = pageAnalyses (run_analyzeAllPages envRateLimited (mount envRateLimited []))\<close>
  using persistence_failure_harmless
          [where e = envRateLimited and n = 1 and st = \<open>mount envRateLimited []\<close>
             and s' = saveFails and u' = updateFails]
  by blast

section \<open>The merged record\<close>

lemma mapSet_fresh: \<open>k \<notin> fst ` set m \<Longrightarrow> mapSet m k v = m @ [(k, v)]\<close>
  by (induction m) auto

lemma foldl_mapSet_distinct:
  \<open>distinct (map fst (m @ cs)) \<Longrightarrow> foldl (\<lambda>m (n, a). mapSet m n a) m cs = m @ cs\<close>
proof (induction cs arbitrary: m)
  case Nil
  then show ?case by simp
next
  case (Cons c cs)
  obtain k v where c: \<open>c = (k, v)\<close> by (cases c)
  from Cons.prems have fresh: \<open>k \<notin> fst ` set m\<close> by (auto simp: c)
  have \<open>distinct (map fst ((m @ [(k, v)]) @ cs))\<close> using Cons.prems by (simp add: c)
  from Cons.IH [OF this] show ?case by (simp add: c mapSet_fresh [OF fresh])
qed

lemma completeAll_distinct: \<open>distinct (map fst cs) \<Longrightarrow> completeAll cs = cs\<close>
  using foldl_mapSet_distinct [of \<open>[]\<close> cs] by (simp add: completeAll_def)

lemma mset_concat_map_cong:
  \<open>mset xs = mset ys \<Longrightarrow> mset (concat (map f xs)) = mset (concat (map f ys))\<close>
proof -
  assume eq: \<open>mset xs = mset ys\<close>
  have \<open>mset (concat (map f zs)) = sum_mset (image_mset (\<lambda>z. mset (f z)) (mset zs))\<close> for zs
    by (induction zs) simp_all
  then show ?thesis using eq by simp
qed

lemma sort_mset_cong: \<open>mset xs = mset ys \<Longrightarrow> sort xs = sort (ys :: nat list)\<close>
  by (rule properties_for_sort) simp_all

lemma sort_key_fst_cong:
  assumes \<open>mset xs = mset ys\<close> \<open>distinct (map fst xs)\<close>
  shows \<open>sort_key fst xs = sort_key fst (ys :: (nat \<times> 'a) list)\<close>
proof (rule sort_key_inj_key_eq)
  show \<open>mset xs = mset (sort_key fst ys)\<close> using assms(1) by simp
  show \<open>inj_on fst (set xs)\<close> using assms(2) by (simp add: distinct_map)
  show \<open>sorted (map fst (sort_key fst ys))\<close> by simp
qed

lemma analyzedPagesList_mset:
  \<open>mset cs' = mset cs \<Longrightarrow> mset (filter isAnalyzed (map snd cs')) = mset (filter isAnalyzed (map snd cs))\<close>
  by (metis mset_filter mset_map)

text \<open>
  C2 as stated fails: completing the pages 3, 1, 2 and completing them 1, 2, 3 give the
  same set of completed units and different merged records, for either consolidation
  function.
\<close>

theorem merge_order_counterexample:
  \<open>set order312 = set order123
   \<and> ar_keyPoints (analysisResultForPage exampleFile (analyzedPagesList (completeAll order312))) = [''c'', ''a'', ''b'']
   \<and> ar_keyPoints (analysisResultForPage exampleFile (analyzedPagesList (completeAll order123))) = [''a'', ''b'', ''c'']
   \<and> analysisResultForPage exampleFile (analyzedPagesList (completeAll order312))
       \<noteq> analysisResultForPage exampleFile (analyzedPagesList (completeAll order123))
   \<and> analysisResultAll exampleFile (analyzedPagesList (completeAll order312))
       \<noteq> analysisResultAll exampleFile (analyzedPagesList (completeAll order123))\<close>
proof -
  have s: \<open>set order312 = set order123\<close>
    by (auto simp: order123_def order312_def)
  have k1: \<open>ar_keyPoints (analysisResultForPage exampleFile (analyzedPagesList (completeAll order312)))
             = [''c'', ''a'', ''b'']\<close>
    by code_simp
  have k2: \<open>ar_keyPoints (analysisResultForPage exampleFile (analyzedPagesList (completeAll order123)))
             = [''a'', ''b'', ''c'']\<close>
    by code_simp
  have k3: \<open>ar_keyPoints (analysisResultAll exampleFile (analyzedPagesList (completeAll order312)))
             = [''Page 3: c'', ''Page 1: a'', ''Page 2: b'']\<close>
    by code_simp
  have k4: \<open>ar_keyPoints (analysisResultAll exampleFile (analyzedPagesList (completeAll order123)))
             = [''Page 1: a'', ''Page 2: b'', ''Page 3: c'']\<close>
    by code_simp
  have n1: \<open>analysisResultForPage exampleFile (analyzedPagesList (completeAll order312))
             \<noteq> analysisResultForPage exampleFile (analyzedPagesList (completeAll order123))\<close>
  proof
    assume \<open>analysisResultForPage exampleFile (analyzedPagesList (completeAll order312))
             = analysisResultForPage exampleFile (analyzedPagesList (completeAll order123))\<close>
    then have \<open>[''c'', ''a'', ''b''] = [''a'', ''b'', ''c'']\<close>
      using k1 k2 by simp
    then show False by simp
  qed
  have n2: \<open>analysisResultAll exampleFile (analyzedPagesList (completeAll order312))
             \<noteq> analysisResultAll exampleFile (analyzedPagesList (completeAll order123))\<close>
  proof
    assume \<open>analysisResultAll exampleFile (analyzedPagesList (completeAll order312))
             = analysisResultAll exampleFile (analyzedPagesList (completeAll order123))\<close>
    then have \<open>[''Page 3: c'', ''Page 1: a'', ''Page 2: b''] = [''Page 1: a'', ''Page 2: b'', ''Page 3: c'']\<close>
      using k3 k4 by simp
    then show False by simp
  qed
  show ?thesis using s k1 k2 n1 n2 by blast
qed

section \<open>The record of a session is created more than once\<close>

text \<open>
  Whether \<^verbatim>\<open>saveConsolidatedHistoryForPage\<close> creates or updates is decided by the
  \<^verbatim>\<open>studyHistoryId\<close> of the render that made the function: the identifier that the
  component holds by then plays no part in the calls made.
\<close>

lemma saveConsolidatedHistoryForPage_reads_closure:
  \<open>trace (saveConsolidatedHistoryForPage e sid n a (st\<lparr>studyHistoryId := x\<rparr>))
   = trace (saveConsolidatedHistoryForPage e sid n a st)\<close>
  by (simp add: saveConsolidatedHistoryForPage_def call_updateStudyHistory_def
      call_saveStudyHistory_def toast_def emit_def Let_def split: option.splits sum.splits)

section \<open>The text that reaches the model\<close>

lemma trim_empty_iff: \<open>trim s = [] \<longleftrightarrow> (\<forall>c \<in> set s. isSpace c)\<close>
proof
  assume \<open>trim s = []\<close>
  then have all: \<open>\<forall>c \<in> set (dropWhile isSpace s). isSpace c\<close>
    unfolding trim_def rev_is_Nil_conv dropWhile_eq_Nil_conv set_rev .
  have \<open>dropWhile isSpace s = []\<close>
  proof (cases \<open>dropWhile isSpace s\<close>)
    case Nil
    then show ?thesis .
  next
    case (Cons a list)
    with hd_dropWhile [of isSpace s] have \<open>\<not> isSpace a\<close> by simp
    moreover from all have \<open>isSpace a\<close> unfolding Cons by simp
    ultimately show ?thesis by simp
  qed
  then show \<open>\<forall>c \<in> set s. isSpace c\<close>
    unfolding dropWhile_eq_Nil_conv .
next
  assume \<open>\<forall>c \<in> set s. isSpace c\<close>
  then have d: \<open>dropWhile isSpace s = []\<close>
    unfolding dropWhile_eq_Nil_conv .
  show \<open>trim s = []\<close> unfolding trim_def d by simp
qed

lemma requests_append [simp]: \<open>requests (xs @ ys) = requests xs @ requests ys\<close>
  by (simp add: requests_def)

lemma generateContentWithRetry_loop_requests:
  \<open>\<exists>k evs. trace (snd (generateContentWithRetry_loop gen request retries i lastError st))
             = trace st @ evs
           \<and> requests evs = replicate k request \<and> k \<le> retries - i \<and> (i < retries \<longrightarrow> 1 \<le> k)\<close>
proof (induction \<open>retries - i\<close> arbitrary: i lastError st)
  case 0
  then have \<open>\<not> i < retries\<close> by simp
  then have \<open>snd (generateContentWithRetry_loop gen request retries i lastError st) = st\<close>
    by (subst generateContentWithRetry_loop.simps) simp
  then show ?case using \<open>\<not> i < retries\<close> by (intro exI [of _ 0] exI [of _ \<open>[]\<close>]) (simp add: requests_def)
next
  case (Suc d)
  then have lt: \<open>i < retries\<close> by simp
  let ?st1 = \<open>emit (GenerateContent request) (st\<lparr>modelCalls := Suc (modelCalls st)\<rparr>)\<close>
  have tr1: \<open>trace ?st1 = trace st @ [GenerateContent request]\<close> by (simp add: emit_def)
  show ?case
  proof (cases \<open>gen (modelCalls st) request\<close>)
    case (Inr v)
    with lt have \<open>snd (generateContentWithRetry_loop gen request retries i lastError st) = ?st1\<close>
      by (subst generateContentWithRetry_loop.simps) (simp add: model_generateContent_def)
    then show ?thesis using lt tr1
      by (intro exI [of _ 1] exI [of _ \<open>[GenerateContent request]\<close>]) (simp add: requests_def)
  next
    case (Inl err)
    let ?st2 = \<open>if i < retries - 1 then setTimeout TransportBackoff (1000 * (i + 1)) ?st1 else ?st1\<close>
    obtain w where tr2: \<open>trace ?st2 = trace st @ GenerateContent request # w\<close>
      and w: \<open>requests w = []\<close>
      by (cases \<open>i < retries - 1\<close>) (simp_all add: setTimeout_def emit_def requests_def)
    from Inl lt have step: \<open>generateContentWithRetry_loop gen request retries i lastError st
        = generateContentWithRetry_loop gen request retries (Suc i) (Some err) ?st2\<close>
      by (subst generateContentWithRetry_loop.simps) (simp add: model_generateContent_def)
    have \<open>d = retries - Suc i\<close> using Suc.hyps(2) by simp
    from Suc.hyps(1) [OF this, of \<open>Some err\<close> ?st2] obtain k evs where
      ih: \<open>trace (snd (generateContentWithRetry_loop gen request retries (Suc i) (Some err) ?st2))
            = trace ?st2 @ evs\<close>
      \<open>requests evs = replicate k request\<close> \<open>k \<le> retries - Suc i\<close>
      by blast
    have \<open>trace (snd (generateContentWithRetry_loop gen request retries i lastError st))
          = trace st @ (GenerateContent request # w @ evs)\<close>
      unfolding step ih(1) tr2 by simp
    moreover have \<open>requests (GenerateContent request # w @ evs) = replicate (Suc k) request\<close>
      using w ih(2) requests_append [of \<open>[GenerateContent request]\<close> \<open>w @ evs\<close>]
      by (simp add: requests_def)
    moreover have \<open>Suc k \<le> retries - i\<close> using ih(3) lt by simp
    ultimately show ?thesis by (intro exI [of _ \<open>Suc k\<close>] exI [of _ \<open>GenerateContent request # w @ evs\<close>]) simp
  qed
qed

lemma analyzeIndividualPage_requests:
  \<open>\<exists>k. 1 \<le> k \<and> k \<le> 3
       \<and> requests (newEvents st (snd (analyzeIndividualPage gen textContent n lang st)))
           = replicate k (pagePrompt textContent n lang)\<close>
proof -
  let ?st0 = \<open>emit (AnalyzeIndividualPage n) st\<close>
  from generateContentWithRetry_loop_requests [of gen \<open>pagePrompt textContent n lang\<close> 3 0 None ?st0]
  obtain k evs where
    tr: \<open>trace (snd (generateContentWithRetry gen (pagePrompt textContent n lang) 3 ?st0))
          = trace ?st0 @ evs\<close>
    and rq: \<open>requests evs = replicate k (pagePrompt textContent n lang)\<close>
    and k: \<open>k \<le> 3\<close> \<open>1 \<le> k\<close>
    by (auto simp: generateContentWithRetry_def)
  have \<open>snd (analyzeIndividualPage gen textContent n lang st)
        = snd (generateContentWithRetry gen (pagePrompt textContent n lang) 3 ?st0)\<close>
    by (simp add: analyzeIndividualPage_def split: prod.split sum.split)
  then have \<open>trace (snd (analyzeIndividualPage gen textContent n lang st))
             = trace st @ AnalyzeIndividualPage n # evs\<close>
    using tr by (simp add: emit_def)
  then have \<open>newEvents st (snd (analyzeIndividualPage gen textContent n lang st))
             = AnalyzeIndividualPage n # evs\<close>
    by (simp add: newEvents_def)
  then show ?thesis using rq k by (intro exI [of _ k]) (simp add: requests_def)
qed

lemma pagePrompt_shape:
  \<open>\<exists>before after. \<forall>t. pagePrompt t n lang = before @ take 15000 t @ after\<close>
proof -
  let ?instr = \<open>if lang = tamil then ''Provide all responses in Tamil.''
                else ''Provide all responses in English.''\<close>
  let ?before = \<open>concat [nl, ''Analyze this content from page '', toString n,
                          '' of a PDF for TNPSC exam preparation. '', ?instr, nl,
                          ''Content: """'']\<close>
  let ?after = \<open>concat
        [''"""'', nl,
         nl,
         ''Return a single, valid JSON object with this exact structure:'', nl,
         ''{'', nl,
         ''  "keyPoints": ["At least 8 short, crisp, memorizable points"],'', nl,
         ''  "studyPoints": [{"title": "string", "description": "string", "importance": "high|medium|low", "tnpscRelevance": "string"}],'', nl,
         ''  "summary": "Brief summary of the page content",'', nl,
         ''  "tnpscRelevance": "How this page's content relates to TNPSC exams",'', nl,
         ''  "tnpscCategories": ["Category1", "Category2"]'', nl,
         ''}'', nl,
         ''Focus on names, dates, places, events, definitions, and key data.'']\<close>
  have \<open>\<forall>t. pagePrompt t n lang = ?before @ take 15000 t @ ?after\<close>
    by (simp add: pagePrompt_def Let_def)
  then show ?thesis by blast
qed

lemma saveConsolidatedHistoryForPage_pageText:
  \<open>saveConsolidatedHistoryForPage (e\<lparr>pageText := f\<rparr>) sid n a st
   = saveConsolidatedHistoryForPage e sid n a st\<close>
proof -
  have u: \<open>call_updateStudyHistory (e\<lparr>pageText := f\<rparr>) = call_updateStudyHistory e\<close>
    by (rule ext)+ (simp add: call_updateStudyHistory_def)
  have s: \<open>call_saveStudyHistory (e\<lparr>pageText := f\<rparr>) = call_saveStudyHistory e\<close>
    by (rule ext)+ (simp add: call_saveStudyHistory_def)
  have m: \<open>saveMetadata (e\<lparr>pageText := f\<rparr>) = saveMetadata e\<close>
    by (rule ext)+ (simp add: saveMetadata_def)
  show ?thesis
    by (cases \<open>user e\<close>) (simp_all add: saveConsolidatedHistoryForPage_def Let_def u s m split: prod.split sum.split)
qed

lemma analyzePage_loop_pageText:
  assumes same: \<open>take 15000 t' = take 15000 (pageText e n)\<close>
    and blank: \<open>(trim t' = []) = (trim (pageText e n) = [])\<close>
  shows \<open>analyzePage_loop (e\<lparr>pageText := (pageText e)(n := t')\<rparr>) sid n attempt delay st
         = analyzePage_loop e sid n attempt delay st\<close>
proof (induction \<open>maxRetries - attempt\<close> arbitrary: attempt delay st)
  case 0
  then have \<open>\<not> attempt < maxRetries\<close> by simp
  then show ?case by (simp add: analyzePage_loop_exhausted)
next
  case (Suc d)
  let ?e' = \<open>e\<lparr>pageText := (pageText e)(n := t')\<rparr>\<close>
  from Suc.hyps(2) have lt: \<open>attempt < maxRetries\<close> by simp
  have cl: \<open>client ?e' n s = client e n s\<close> for s
    using same by (simp add: client_def analyzeIndividualPage_def pagePrompt_def)
  show ?case
  proof (cases \<open>trim (pageText e n) = []\<close>)
    case True
    then have \<open>trim (pageText ?e' n) = []\<close> using blank by simp
    from analyzePage_loop_blank [OF lt this] analyzePage_loop_blank [OF lt True]
    show ?thesis by simp
  next
    case False
    then have nb: \<open>trim (pageText ?e' n) \<noteq> []\<close> using blank by simp
    obtain r1 st1 where c: \<open>client e n st = (r1, st1)\<close> by (cases \<open>client e n st\<close>)
    then have c': \<open>client ?e' n st = (r1, st1)\<close> by (simp add: cl)
    show ?thesis
    proof (cases r1)
      case (Inr a)
      from analyzePage_loop_success [OF lt nb c' [unfolded Inr]]
        analyzePage_loop_success [OF lt False c [unfolded Inr]]
      show ?thesis by (simp add: saveConsolidatedHistoryForPage_pageText)
    next
      case (Inl err)
      show ?thesis
      proof (cases \<open>rateLimited err \<and> attempt < maxRetries - 1\<close>)
        case True
        then have rl: \<open>rateLimited err\<close> and more: \<open>attempt < maxRetries - 1\<close> by simp_all
        have \<open>d = maxRetries - Suc attempt\<close> using Suc.hyps(2) by simp
        from Suc.hyps(1) [OF this]
          analyzePage_loop_retry [OF lt nb c' [unfolded Inl] rl more]
          analyzePage_loop_retry [OF lt False c [unfolded Inl] rl more]
        show ?thesis by simp
      next
        case False2: False
        from analyzePage_loop_fail [OF lt nb c' [unfolded Inl] False2]
          analyzePage_loop_fail [OF lt False c [unfolded Inl] False2]
        show ?thesis by simp
      qed
    qed
  qed
qed

text \<open>
  C10, as the code has it. The request that \<^verbatim>\<open>analyzeIndividualPage\<close> sends is fixed text
  around the first 15000 characters of the page text, and every request the call makes
  to the model (there are one to three) is that one: no character beyond the first 15000
  reaches the model, and two texts with the same first 15000 characters get the same
  requests, the same result and the same effects. For \<^verbatim>\<open>analyzePage\<close> this holds when
  the two texts are both blank or both not blank: its test for a blank page reads the
  whole text.
\<close>

theorem analyzeIndividualPage_truncates:
  \<open>(\<exists>before after. \<forall>t. pagePrompt t n lang = before @ take 15000 t @ after)
   \<and> (\<exists>k. 1 \<le> k \<and> k \<le> 3
          \<and> requests (newEvents st (snd (analyzeIndividualPage gen textContent n lang st)))
              = replicate k (pagePrompt textContent n lang))
   \<and> analyzeIndividualPage gen textContent n lang st
       = analyzeIndividualPage gen (take 15000 textContent) n lang st
   \<and> (take 15000 t1 = take 15000 t2 \<longrightarrow>
        analyzeIndividualPage gen t1 n lang st = analyzeIndividualPage gen t2 n lang st)
   \<and> (take 15000 t' = take 15000 (pageText e n) \<and> (trim t' = []) = (trim (pageText e n) = []) \<longrightarrow>
        run_analyzePage (e\<lparr>pageText := (pageText e)(n := t')\<rparr>) n cst = run_analyzePage e n cst)\<close>
proof (intro conjI impI)
  show \<open>\<exists>before after. \<forall>t. pagePrompt t n lang = before @ take 15000 t @ after\<close>
    by (rule pagePrompt_shape)
  show \<open>\<exists>k. 1 \<le> k \<and> k \<le> 3
          \<and> requests (newEvents st (snd (analyzeIndividualPage gen textContent n lang st)))
              = replicate k (pagePrompt textContent n lang)\<close>
    by (rule analyzeIndividualPage_requests)
  show \<open>analyzeIndividualPage gen textContent n lang st
       = analyzeIndividualPage gen (take 15000 textContent) n lang st\<close>
    by (simp add: analyzeIndividualPage_def pagePrompt_def)
  show \<open>analyzeIndividualPage gen t1 n lang st = analyzeIndividualPage gen t2 n lang st\<close>
    if \<open>take 15000 t1 = take 15000 t2\<close>
    using that by (simp add: analyzeIndividualPage_def pagePrompt_def)
  show \<open>run_analyzePage (e\<lparr>pageText := (pageText e)(n := t')\<rparr>) n cst = run_analyzePage e n cst\<close>
    if \<open>take 15000 t' = take 15000 (pageText e n) \<and> (trim t' = []) = (trim (pageText e n) = [])\<close>
    using that by (simp add: run_analyzePage_def analyzePage_def analyzePage_loop_pageText)
qed

theorem analyzeIndividualPage_truncates_witness:
  \<open>take 15000 (longText @ ''yz'') = take 15000 (pageText envLong 1)
   \<and> trim (longText @ ''yz'') \<noteq> [] \<and> trim (pageText envLong 1) \<noteq> []
   \<and> analyzeIndividualPage (gemini envLong) (longText @ ''yz'') 1 english world0
       = analyzeIndividualPage (gemini envLong) (pageText envLong 1) 1 english world0
   \<and> run_analyzePage (envLong\<lparr>pageText := (pageText envLong)(1 := longText @ ''yz'')\<rparr>) 1
         (mount envLong [])
       = run_analyzePage envLong 1 (mount envLong [])\<close>
proof -
  have pt: \<open>pageText envLong k = longText\<close> for k by (simp add: envLong_def)
  have same: \<open>take 15000 (longText @ ''yz'') = take 15000 (pageText envLong 1)\<close>
    by (simp add: pt longText_def)
  have nb1: \<open>trim (longText @ ''yz'') \<noteq> []\<close>
    by (simp add: trim_empty_iff longText_def isSpace_def)
  have nb2: \<open>trim (pageText envLong 1) \<noteq> []\<close>
    by (simp add: pt trim_empty_iff longText_def isSpace_def)
  from nb1 nb2 have blank: \<open>(trim (longText @ ''yz'') = []) = (trim (pageText envLong 1) = [])\<close>
    by simp
  from analyzeIndividualPage_truncates
         [where ?t1.0 = \<open>longText @ ''yz''\<close> and ?t2.0 = \<open>pageText envLong 1\<close>
            and t' = \<open>longText @ ''yz''\<close> and e = envLong and n = 1 and gen = \<open>gemini envLong\<close>
            and lang = english and st = world0 and cst = \<open>mount envLong []\<close>]
    same nb1 nb2 blank
  show ?thesis by blast
qed

text \<open>
  C10 as stated fails for the analysis of a page as a whole. The page text of 15000 spaces
  and a letter is not blank: the Analysis Client is called (with the 15000 spaces) and the
  page gets the analysis the model returns. Its first 15000 characters alone are blank: no
  call is made and the page gets the empty analysis. So the character after the first
  15000 decides what the analysis of the page is.
\<close>

theorem blank_test_reads_whole_text_counterexample:
  \<open>pageText envCut 1 = take 15000 (pageText envLong 1)
   \<and> clientCalls (newEvents (mount envLong []) (snd (run_analyzePage envLong 1 (mount envLong [])))) = 1
   \<and> map keyPoints (mapValues (pageAnalyses (snd (run_analyzePage envLong 1 (mount envLong [])))))
       = [[''k'']]
   \<and> clientCalls (newEvents (mount envCut []) (snd (run_analyzePage envCut 1 (mount envCut [])))) = 0
   \<and> mapValues (pageAnalyses (snd (run_analyzePage envCut 1 (mount envCut [])))) = [emptyAnalysis 1]\<close>
proof -
  let ?st0 = \<open>(render (mount envLong []))\<lparr>isAnalyzing := True\<rparr>\<close>
  let ?ct0 = \<open>(render (mount envCut []))\<lparr>isAnalyzing := True\<rparr>\<close>
  have cut: \<open>pageText envCut 1 = take 15000 (pageText envLong 1)\<close>
    by (simp add: envCut_def envLong_def)
  have todo: \<open>\<not> analyzedIn (pageAnalyses (mount envLong [])) 1\<close>
    \<open>\<not> analyzedIn (pageAnalyses (mount envCut [])) 1\<close>
    by (simp_all add: envCut_def envLong_def envFail_def mount_def analyzedIn_def mapHas_def orElse_def)
  have nb: \<open>trim (pageText envLong 1) \<noteq> []\<close>
    by (simp add: envLong_def trim_empty_iff longText_def isSpace_def)
  have bl: \<open>trim (pageText envCut 1) = []\<close>
    by (simp add: envCut_def envLong_def trim_empty_iff longText_def isSpace_def)
  have lt: \<open>0 < maxRetries\<close> by (simp add: maxRetries_def)
  \<comment> \<open>the long text\<close>
  obtain a st1 where c: \<open>client envLong 1 ?st0 = (Inr a, st1)\<close> and kp: \<open>keyPoints a = [''k'']\<close>
    by (simp add: client_def analyzeIndividualPage_def generateContentWithRetry_def
        generateContentWithRetry_loop.simps [of _ _ 3 0] model_generateContent_def
        envLong_def rawPage_def orElse_def)
  obtain r st' where run: \<open>analyzePage_loop envLong (studyHistoryId (mount envLong [])) 1 0 2000 ?st0 = (r, st')\<close>
    by (cases \<open>analyzePage_loop envLong (studyHistoryId (mount envLong [])) 1 0 2000 ?st0\<close>)
  have unf: \<open>run_analyzePage envLong 1 (mount envLong []) = (r, st')\<close>
    unfolding run_analyzePage_unfold [OF todo(1)] by (rule run)
  from analyzePage_loop_calls [OF lt nb run] c
  have calls: \<open>clientCalls (newEvents ?st0 st') = 1\<close> by auto
  have ne: \<open>newEvents (mount envLong []) st' = newEvents ?st0 st'\<close>
    by (simp add: newEvents_def render_def)
  from run analyzePage_loop_success [OF lt nb c, of \<open>studyHistoryId (mount envLong [])\<close> 2000]
  have \<open>pageAnalyses st' = mapSet (pageAnalyses st1) 1 (completed a)\<close>
    by (auto simp: toast_def emit_def setPageAnalyses_def Let_def)
  moreover have \<open>pageAnalyses st1 = []\<close>
    using client_frame(2) [OF c] by (simp add: sameMaps_def render_def mount_def envLong_def envFail_def orElse_def)
  ultimately have pa: \<open>mapValues (pageAnalyses st') = [completed a]\<close>
    by (simp add: mapValues_def)
  have kpc: \<open>keyPoints (completed a) = keyPoints a\<close>
    by (simp add: completed_def IndividualPage.defs PageAnalysis.defs)
  \<comment> \<open>its first 15000 characters\<close>
  let ?ct' = \<open>(setPageAnalyses 1 (emptyAnalysis 1) (toast (SkippingPage 1) ?ct0))\<lparr>isAnalyzing := False\<rparr>\<close>
  have runc: \<open>run_analyzePage envCut 1 (mount envCut []) = (Inr (), ?ct')\<close>
    unfolding run_analyzePage_unfold [OF todo(2)] by (rule analyzePage_loop_blank [OF lt bl])
  have trc: \<open>newEvents (mount envCut []) ?ct' = [Toast (SkippingPage 1)]\<close>
    by (simp add: newEvents_def setPageAnalyses_def toast_def emit_def render_def Let_def)
  have pac: \<open>mapValues (pageAnalyses ?ct') = [emptyAnalysis 1]\<close>
    by (simp add: setPageAnalyses_def toast_def emit_def render_def Let_def mapValues_def
        mount_def envCut_def envLong_def envFail_def orElse_def)
  show ?thesis
    unfolding unf runc snd_conv trc pac ne calls pa
    using cut by (simp add: kpc kp clientCalls_def isClientCall_def)
qed

section \<open>What question generation returns\<close>













section \<open>What a consolidation sends\<close>

lemma analyzed_after_set:
  \<open>isAnalyzed a \<Longrightarrow> filter isAnalyzed (mapValues (mapSet m n a)) \<noteq> []\<close>
proof -
  assume a: \<open>isAnalyzed a\<close>
  have \<open>map_of (mapSet m n a) n = Some a\<close> by (simp add: map_of_mapSet)
  then have \<open>(n, a) \<in> set (mapSet m n a)\<close> by (rule map_of_SomeD)
  then have \<open>a \<in> set (mapValues (mapSet m n a))\<close>
    by (force simp: mapValues_def)
  with a show ?thesis by (auto simp: filter_empty_conv)
qed

lemma saveConsolidatedHistoryForPage_sends:
  assumes \<open>user e = Some uid\<close> \<open>isAnalyzed a\<close>
  shows \<open>sentRecords (newEvents st (saveConsolidatedHistoryForPage e sid n a st))
         = [analysisResultForPage (inputFile e)
              (filter isAnalyzed (mapValues (mapSet (closureMap st) n a)))]\<close>
proof (cases \<open>truthyStr sid\<close>)
  case True
  show ?thesis
    using assms(1) analyzed_after_set [OF assms(2), of \<open>closureMap st\<close> n] True
    by (cases \<open>updateStudyHistory e (storeCalls st) (orElse sid [])
                  (analysisResultForPage (inputFile e) (filter isAnalyzed (mapValues (mapSet (closureMap st) n a))))
                  (pageAnalysesMapForFirestore (mapSet (closureMap st) n a))\<close>)
       (simp_all add: saveConsolidatedHistoryForPage_def call_updateStudyHistory_def Let_def
          newEvents_def emit_def toast_def sentRecords_def)
next
  case False
  show ?thesis
    using assms(1) analyzed_after_set [OF assms(2), of \<open>closureMap st\<close> n] False
    by (cases \<open>saveStudyHistory e (storeCalls st) uid ''analysis''
                  [analysisResultForPage (inputFile e) (filter isAnalyzed (mapValues (mapSet (closureMap st) n a)))]
                  (saveMetadata e (mapSet (closureMap st) n a))\<close>)
       (simp_all add: saveConsolidatedHistoryForPage_def call_saveStudyHistory_def Let_def
          newEvents_def emit_def toast_def sentRecords_def)
qed

lemma saveConsolidatedHistory_sends:
  assumes \<open>user e = Some uid\<close> \<open>filter isAnalyzed (mapValues (closureMap st)) \<noteq> []\<close>
  shows \<open>sentRecords (newEvents st (saveConsolidatedHistory e sid st))
         = [analysisResultAll (inputFile e) (filter isAnalyzed (mapValues (closureMap st)))]\<close>
proof (cases \<open>truthyStr sid\<close>)
  case True
  show ?thesis
    using assms True
    by (cases \<open>updateStudyHistory e (storeCalls st) (orElse sid [])
                  (analysisResultAll (inputFile e) (filter isAnalyzed (mapValues (closureMap st))))
                  (pageAnalysesMapForFirestore (closureMap st))\<close>)
       (simp_all add: saveConsolidatedHistory_def call_updateStudyHistory_def Let_def
          newEvents_def emit_def sentRecords_def)
next
  case False
  show ?thesis
    using assms False
    by (cases \<open>saveStudyHistory e (storeCalls st) uid ''analysis''
                  [analysisResultAll (inputFile e) (filter isAnalyzed (mapValues (closureMap st)))]
                  (saveMetadata e (closureMap st))\<close>)
       (simp_all add: saveConsolidatedHistory_def call_saveStudyHistory_def Let_def
          newEvents_def emit_def sentRecords_def)
qed

lemma effect_pageAnalyses_sends:
  assumes \<open>user e = Some uid\<close> \<open>filter isAnalyzed (mapValues (pageAnalyses st)) \<noteq> []\<close>
  shows \<open>sentRecords (newEvents st (effect_pageAnalyses e st))
         = [analysisResultAll (inputFile e) (filter isAnalyzed (mapValues (pageAnalyses st)))]\<close>
proof -
  have ne: \<open>filter isAnalyzed (mapValues (closureMap (render st))) \<noteq> []\<close>
    using assms(2) by (simp add: render_def)
  have \<open>newEvents st (effect_pageAnalyses e st)
        = newEvents (render st) (saveConsolidatedHistory e (studyHistoryId st) (render st))\<close>
    using assms(2) by (simp add: effect_pageAnalyses_def Let_def newEvents_def render_def)
  then show ?thesis
    using saveConsolidatedHistory_sends [OF assms(1) ne, of \<open>studyHistoryId st\<close>]
    by (simp add: render_def)
qed

lemma pageAnalyses_completions:
  \<open>pageAnalyses (completions cs st) = foldl (\<lambda>m (n, a). mapSet m n a) (pageAnalyses st) cs\<close>
  unfolding completions_def
  by (induction cs arbitrary: st) (simp_all add: setPageAnalyses_def Let_def split_beta)

text \<open>
  C2, as the code has it. A consolidation sends one merged record, built from the \<^verbatim>\<open>Map\<close>
  that the consolidating function holds: \<^verbatim>\<open>saveConsolidatedHistoryForPage\<close> merges the
  analyzed entries of that \<^verbatim>\<open>Map\<close> with the current page set,
  \<^verbatim>\<open>saveConsolidatedHistory\<close> (which the effect on \<^verbatim>\<open>pageAnalyses\<close> runs with the
  \<^verbatim>\<open>Map\<close> that React holds) the analyzed entries of the \<^verbatim>\<open>Map\<close>. The \<^verbatim>\<open>Map\<close> that
  React holds lists its pages in the order in which they first completed, and the merge
  follows the order of the \<^verbatim>\<open>Map\<close>, not the page numbers: the merged key points, study
  points, labelled summaries and labelled relevance texts are those of the entries in
  that order. So two completion sequences give the same records when they complete the
  same pages in the same order. For the same completions in another order the record has
  the same key points as a multiset, the same list of pages in \<^verbatim>\<open>mainTopic\<close> (that list
  is sorted), the same category label and the same map of analyzed pages.
\<close>

theorem merge_follows_completion_order:
  \<open>(user e = Some uid \<and> isAnalyzed a \<longrightarrow>
      sentRecords (newEvents st (saveConsolidatedHistoryForPage e sid n a st))
        = [analysisResultForPage (inputFile e)
             (filter isAnalyzed (mapValues (mapSet (closureMap st) n a)))])
   \<and> (user e = Some uid \<and> filter isAnalyzed (mapValues (closureMap st)) \<noteq> [] \<longrightarrow>
        sentRecords (newEvents st (saveConsolidatedHistory e sid st))
          = [analysisResultAll (inputFile e) (filter isAnalyzed (mapValues (closureMap st)))])
   \<and> (user e = Some uid \<and> filter isAnalyzed (mapValues (pageAnalyses st)) \<noteq> [] \<longrightarrow>
        sentRecords (newEvents st (effect_pageAnalyses e st))
          = [analysisResultAll (inputFile e) (filter isAnalyzed (mapValues (pageAnalyses st)))])
   \<and> (pageAnalyses st = [] \<longrightarrow> pageAnalyses (completions cs st) = completeAll cs)
   \<and> (distinct (map fst cs) \<longrightarrow>
        completeAll cs = cs
        \<and> analyzedPagesList (completeAll cs) = filter isAnalyzed (map snd cs)
        \<and> ar_keyPoints (analysisResultForPage f (analyzedPagesList (completeAll cs)))
            = concat (map keyPoints (filter isAnalyzed (map snd cs)))
        \<and> ar_studyPoints (analysisResultForPage f (analyzedPagesList (completeAll cs)))
            = concat (map studyPoints (filter isAnalyzed (map snd cs)))
        \<and> ar_summary (analysisResultForPage f (analyzedPagesList (completeAll cs)))
            = join (nl @ nl) (map (\<lambda>page. pageLabelled (pageNumber page) (summary page))
                                 (filter isAnalyzed (map snd cs)))
        \<and> ar_tnpscRelevance (analysisResultForPage f (analyzedPagesList (completeAll cs)))
            = join (nl @ nl) (map (\<lambda>page. pageLabelled (pageNumber page) (tnpscRelevance page))
                                 (filter isAnalyzed (map snd cs)))
        \<and> ar_keyPoints (analysisResultAll f (analyzedPagesList (completeAll cs)))
            = concat (map (\<lambda>page. map (\<lambda>point. pageLabelled (pageNumber page) point) (keyPoints page))
                          (filter isAnalyzed (map snd cs)))
        \<and> ar_summary (analysisResultAll f (analyzedPagesList (completeAll cs)))
            = join (nl @ nl) (map (\<lambda>page. pageLabelled (pageNumber page) (summary page))
                                 (filter isAnalyzed (map snd cs)))
        \<and> ar_tnpscRelevance (analysisResultAll f (analyzedPagesList (completeAll cs)))
            = join (nl @ nl) (map (\<lambda>page. pageLabelled (pageNumber page) (tnpscRelevance page))
                                 (filter isAnalyzed (map snd cs))))
   \<and> (distinct (map fst cs) \<and> mset cs' = mset cs \<longrightarrow>
        mset (ar_keyPoints (analysisResultForPage f (analyzedPagesList (completeAll cs'))))
          = mset (ar_keyPoints (analysisResultForPage f (analyzedPagesList (completeAll cs))))
        \<and> mset (ar_keyPoints (analysisResultAll f (analyzedPagesList (completeAll cs'))))
          = mset (ar_keyPoints (analysisResultAll f (analyzedPagesList (completeAll cs))))
        \<and> ar_mainTopic (analysisResultForPage f (analyzedPagesList (completeAll cs')))
          = ar_mainTopic (analysisResultForPage f (analyzedPagesList (completeAll cs)))
        \<and> ar_tnpscCategories (analysisResultForPage f (analyzedPagesList (completeAll cs')))
          = ar_tnpscCategories (analysisResultForPage f (analyzedPagesList (completeAll cs)))
        \<and> pageAnalysesMapForFirestore (completeAll cs') = pageAnalysesMapForFirestore (completeAll cs))\<close>
proof (intro conjI impI)
  assume \<open>user e = Some uid \<and> isAnalyzed a\<close>
  then show \<open>sentRecords (newEvents st (saveConsolidatedHistoryForPage e sid n a st))
        = [analysisResultForPage (inputFile e)
             (filter isAnalyzed (mapValues (mapSet (closureMap st) n a)))]\<close>
    by (simp add: saveConsolidatedHistoryForPage_sends)
next
  assume \<open>user e = Some uid \<and> filter isAnalyzed (mapValues (closureMap st)) \<noteq> []\<close>
  then show \<open>sentRecords (newEvents st (saveConsolidatedHistory e sid st))
          = [analysisResultAll (inputFile e) (filter isAnalyzed (mapValues (closureMap st)))]\<close>
    by (simp add: saveConsolidatedHistory_sends)
next
  assume \<open>user e = Some uid \<and> filter isAnalyzed (mapValues (pageAnalyses st)) \<noteq> []\<close>
  then show \<open>sentRecords (newEvents st (effect_pageAnalyses e st))
          = [analysisResultAll (inputFile e) (filter isAnalyzed (mapValues (pageAnalyses st)))]\<close>
    by (simp add: effect_pageAnalyses_sends)
next
  assume \<open>pageAnalyses st = []\<close>
  then show \<open>pageAnalyses (completions cs st) = completeAll cs\<close>
    by (simp add: pageAnalyses_completions completeAll_def)
next
  assume d: \<open>distinct (map fst cs)\<close>
  show c: \<open>completeAll cs = cs\<close> using d by (rule completeAll_distinct)
  show \<open>analyzedPagesList (completeAll cs) = filter isAnalyzed (map snd cs)\<close>
    by (simp add: c analyzedPagesList_def mapValues_def)
  then show \<open>ar_keyPoints (analysisResultForPage f (analyzedPagesList (completeAll cs)))
          = concat (map keyPoints (filter isAnalyzed (map snd cs)))\<close>
    and \<open>ar_studyPoints (analysisResultForPage f (analyzedPagesList (completeAll cs)))
          = concat (map studyPoints (filter isAnalyzed (map snd cs)))\<close>
    and \<open>ar_summary (analysisResultForPage f (analyzedPagesList (completeAll cs)))
          = join (nl @ nl) (map (\<lambda>page. pageLabelled (pageNumber page) (summary page))
                               (filter isAnalyzed (map snd cs)))\<close>
    and \<open>ar_tnpscRelevance (analysisResultForPage f (analyzedPagesList (completeAll cs)))
          = join (nl @ nl) (map (\<lambda>page. pageLabelled (pageNumber page) (tnpscRelevance page))
                               (filter isAnalyzed (map snd cs)))\<close>
    and \<open>ar_keyPoints (analysisResultAll f (analyzedPagesList (completeAll cs)))
            = concat (map (\<lambda>page. map (\<lambda>point. pageLabelled (pageNumber page) point) (keyPoints page))
                          (filter isAnalyzed (map snd cs)))\<close>
    and \<open>ar_summary (analysisResultAll f (analyzedPagesList (completeAll cs)))
            = join (nl @ nl) (map (\<lambda>page. pageLabelled (pageNumber page) (summary page))
                                 (filter isAnalyzed (map snd cs)))\<close>
    and \<open>ar_tnpscRelevance (analysisResultAll f (analyzedPagesList (completeAll cs)))
            = join (nl @ nl) (map (\<lambda>page. pageLabelled (pageNumber page) (tnpscRelevance page))
                                 (filter isAnalyzed (map snd cs)))\<close>
    by (simp_all add: analysisResultForPage_def analysisResultAll_def)
next
  assume h: \<open>distinct (map fst cs) \<and> mset cs' = mset cs\<close>
  then have d: \<open>distinct (map fst cs)\<close> and m: \<open>mset cs' = mset cs\<close> by simp_all
  have \<open>mset (map fst cs') = mset (map fst cs)\<close> using m by (metis mset_map)
  then have d': \<open>distinct (map fst cs')\<close> using d by (metis mset_eq_imp_distinct_iff)
  have c: \<open>completeAll cs = cs\<close> \<open>completeAll cs' = cs'\<close>
    using d d' by (simp_all add: completeAll_distinct)
  let ?ps = \<open>filter isAnalyzed (map snd cs)\<close> and ?ps' = \<open>filter isAnalyzed (map snd cs')\<close>
  have a: \<open>analyzedPagesList (completeAll cs) = ?ps\<close> \<open>analyzedPagesList (completeAll cs') = ?ps'\<close>
    by (simp_all add: c analyzedPagesList_def mapValues_def)
  have mp: \<open>mset ?ps' = mset ?ps\<close> using m by (rule analyzedPagesList_mset)
  show \<open>mset (ar_keyPoints (analysisResultForPage f (analyzedPagesList (completeAll cs'))))
          = mset (ar_keyPoints (analysisResultForPage f (analyzedPagesList (completeAll cs))))\<close>
    unfolding a using mset_concat_map_cong [OF mp, of keyPoints]
    by (simp add: analysisResultForPage_def)
  show \<open>mset (ar_keyPoints (analysisResultAll f (analyzedPagesList (completeAll cs'))))
          = mset (ar_keyPoints (analysisResultAll f (analyzedPagesList (completeAll cs))))\<close>
    unfolding a
    using mset_concat_map_cong [OF mp,
        of \<open>\<lambda>page. map (\<lambda>point. pageLabelled (pageNumber page) point) (keyPoints page)\<close>]
    by (simp add: analysisResultAll_def)
  have len: \<open>length ?ps' = length ?ps\<close> using mp by (rule mset_eq_length)
  have \<open>mset (map pageNumber ?ps') = mset (map pageNumber ?ps)\<close> using mp by (metis mset_map)
  then have srt: \<open>sort (map pageNumber ?ps') = sort (map pageNumber ?ps)\<close>
    by (rule sort_mset_cong)
  show \<open>ar_mainTopic (analysisResultForPage f (analyzedPagesList (completeAll cs')))
          = ar_mainTopic (analysisResultForPage f (analyzedPagesList (completeAll cs)))\<close>
    unfolding a by (simp add: analysisResultForPage_def mainTopicLabel_def srt)
  show \<open>ar_tnpscCategories (analysisResultForPage f (analyzedPagesList (completeAll cs')))
          = ar_tnpscCategories (analysisResultForPage f (analyzedPagesList (completeAll cs)))\<close>
  proof -
    have \<open>categoriesLabel ?ps' = categoriesLabel ?ps\<close>
      unfolding categoriesLabel_def len ..
    then show ?thesis unfolding a by (simp add: analysisResultForPage_def)
  qed
  have mf: \<open>mset (filter (\<lambda>(n, analysis). isAnalyzed analysis) cs')
            = mset (filter (\<lambda>(n, analysis). isAnalyzed analysis) cs)\<close>
    using m by (metis mset_filter)
  have df: \<open>distinct (map fst (filter (\<lambda>(n, analysis). isAnalyzed analysis) cs'))\<close>
    using d' by (rule distinct_map_filter)
  show \<open>pageAnalysesMapForFirestore (completeAll cs') = pageAnalysesMapForFirestore (completeAll cs)\<close>
    unfolding c pageAnalysesMapForFirestore_def
    using sort_key_fst_cong [OF mf df] by simp
qed

theorem merge_follows_completion_order_witness:
  \<open>user envTwo = Some ''u1'' \<and> isAnalyzed (examplePage 3 ''c'')
   \<and> sentRecords (newEvents staleState
         (saveConsolidatedHistoryForPage envTwo None 3 (examplePage 3 ''c'') staleState))
       = [analysisResultForPage (inputFile envTwo)
            (filter isAnalyzed (mapValues (mapSet (closureMap staleState) 3 (examplePage 3 ''c''))))]
   \<and> map ar_keyPoints (sentRecords (newEvents staleState
         (saveConsolidatedHistoryForPage envTwo None 3 (examplePage 3 ''c'') staleState)))
       = [[''a'', ''c'']]
   \<and> sentRecords (newEvents staleState (effect_pageAnalyses envTwo staleState))
       = [analysisResultAll (inputFile envTwo)
            (filter isAnalyzed (mapValues (pageAnalyses staleState)))]
   \<and> pageAnalyses (completions order312 (mount envTwo [])) = completeAll order312
   \<and> distinct (map fst order123) \<and> mset order312 = mset order123
   \<and> completeAll order123 = order123
   \<and> ar_keyPoints (analysisResultForPage exampleFile (analyzedPagesList (completeAll order123)))
       = concat (map keyPoints (filter isAnalyzed (map snd order123)))
   \<and> ar_mainTopic (analysisResultForPage exampleFile (analyzedPagesList (completeAll order312)))
       = ar_mainTopic (analysisResultForPage exampleFile (analyzedPagesList (completeAll order123)))
   \<and> pageAnalysesMapForFirestore (completeAll order312) = pageAnalysesMapForFirestore (completeAll order123)\<close>
proof -
  have u: \<open>user envTwo = Some ''u1''\<close> by (simp add: envTwo_def envFail_def)
  have a: \<open>isAnalyzed (examplePage 3 ''c'')\<close> by (simp add: examplePage_def)
  have ne: \<open>filter isAnalyzed (mapValues (pageAnalyses staleState)) \<noteq> []\<close>
    by (simp add: staleState_def mapValues_def examplePage_def)
  have ne': \<open>filter isAnalyzed (mapValues (closureMap staleState)) \<noteq> []\<close>
    by (simp add: staleState_def mapValues_def examplePage_def)
  have empty: \<open>pageAnalyses (mount envTwo []) = []\<close>
    by (simp add: mount_def envTwo_def envFail_def orElse_def)
  have d: \<open>distinct (map fst order123)\<close> by (simp add: order123_def)
  have m: \<open>mset order312 = mset order123\<close> by (simp add: order123_def order312_def)
  note one = merge_follows_completion_order
    [where e = envTwo and uid = \<open>''u1''\<close> and a = \<open>examplePage 3 ''c''\<close> and st = staleState
       and sid = None and n = 3 and cs = order123 and cs' = order312 and f = exampleFile]
  note two = merge_follows_completion_order
    [where st = \<open>mount envTwo []\<close> and cs = order312]
  from one u a have sent: \<open>sentRecords (newEvents staleState
         (saveConsolidatedHistoryForPage envTwo None 3 (examplePage 3 ''c'') staleState))
       = [analysisResultForPage (inputFile envTwo)
            (filter isAnalyzed (mapValues (mapSet (closureMap staleState) 3 (examplePage 3 ''c''))))]\<close>
    by blast
  have kp: \<open>map ar_keyPoints
              [analysisResultForPage (inputFile envTwo)
                 (filter isAnalyzed (mapValues (mapSet (closureMap staleState) 3 (examplePage 3 ''c''))))]
            = [[''a'', ''c'']]\<close>
    by (simp add: staleState_def analysisResultForPage_def mapValues_def examplePage_def)
  from two empty have comp: \<open>pageAnalyses (completions order312 (mount envTwo [])) = completeAll order312\<close>
    by blast
  have kp': \<open>map ar_keyPoints (sentRecords (newEvents staleState
         (saveConsolidatedHistoryForPage envTwo None 3 (examplePage 3 ''c'') staleState)))
       = [[''a'', ''c'']]\<close>
    unfolding sent by (rule kp)
  from one u ne have eff: \<open>sentRecords (newEvents staleState (effect_pageAnalyses envTwo staleState))
       = [analysisResultAll (inputFile envTwo)
            (filter isAnalyzed (mapValues (pageAnalyses staleState)))]\<close>
    by blast
  from one d m have rest: \<open>completeAll order123 = order123
   \<and> ar_keyPoints (analysisResultForPage exampleFile (analyzedPagesList (completeAll order123)))
       = concat (map keyPoints (filter isAnalyzed (map snd order123)))
   \<and> ar_mainTopic (analysisResultForPage exampleFile (analyzedPagesList (completeAll order312)))
       = ar_mainTopic (analysisResultForPage exampleFile (analyzedPagesList (completeAll order123)))
   \<and> pageAnalysesMapForFirestore (completeAll order312) = pageAnalysesMapForFirestore (completeAll order123)\<close>
    by blast
  from u a sent kp' eff comp d m rest show ?thesis by blast
qed

section \<open>The record of a session is created twice\<close>

text \<open>
  C1 fails in the code. A signed-in user opens the document of two pages in a fresh
  session. The first render holds no identifier and no analysis, so its effects on
  \<^verbatim>\<open>studyHistoryId\<close> and on \<^verbatim>\<open>pageAnalyses\<close> do nothing, and its third effect analyses
  page 1. \<^verbatim>\<open>saveConsolidatedHistoryForPage\<close> creates a record, and while it waits the
  effect on \<^verbatim>\<open>pageAnalyses\<close> of the next render creates a second one, since that render
  holds no identifier either. The identifier is \<^verbatim>\<open>id0\<close> after the first answer and
  \<^verbatim>\<open>id1\<close> after the second, and no update is made.
\<close>

theorem mount_creates_twice_evaluation:
  \<open>studyHistoryId (mount envTwo []) = None
   \<and> effect_studyHistoryId envTwo (mount envTwo []) = mount envTwo []
   \<and> effect_pageAnalyses envTwo (mount envTwo []) = mount envTwo []
   \<and> initialCurrentPage envTwo = 1
   \<and> storeLog (trace (snd (run_analyzePage envTwo 1 (mount envTwo [])))) = [Create [''1'']]
   \<and> studyHistoryId (snd (run_analyzePage envTwo 1 (mount envTwo []))) = Some ''id0''
   \<and> storeLog (trace (effect_autoAnalyze envTwo (mount envTwo []))) = [Create [''1''], Create [''1'']]
   \<and> studyHistoryId (effect_autoAnalyze envTwo (mount envTwo [])) = Some ''id1''
   \<and> sessionStorage (effect_autoAnalyze envTwo (mount envTwo []))
       = [(''studyHistoryId_f.pdf_10'', ''id1'')]\<close>
proof -
  have a: \<open>studyHistoryId (mount envTwo []) = None\<close>
    by code_simp
  have b: \<open>effect_studyHistoryId envTwo (mount envTwo []) = mount envTwo []\<close>
    by (simp add: effect_studyHistoryId_def a truthyStr_def)
  have c: \<open>effect_pageAnalyses envTwo (mount envTwo []) = mount envTwo []\<close>
    by (simp add: effect_pageAnalyses_def mount_def envTwo_def envFail_def orElse_def mapValues_def)
  have d: \<open>initialCurrentPage envTwo = 1\<close>
    by (simp add: initialCurrentPage_def envTwo_def envFail_def)
  have e: \<open>(\<lambda>st. (storeLog (trace st), studyHistoryId st))
             (snd (run_analyzePage envTwo 1 (mount envTwo [])))
           = ([Create [''1'']], Some ''id0'')\<close>
    by code_simp
  have f: \<open>(\<lambda>st. (storeLog (trace st), studyHistoryId st, sessionStorage st))
             (effect_autoAnalyze envTwo (mount envTwo []))
           = ([Create [''1''], Create [''1'']], Some ''id1'', [(''studyHistoryId_f.pdf_10'', ''id1'')])\<close>
    by code_simp
  show ?thesis using a b c d e f by simp
qed

end
